theory Spec2Isabelle
  imports Main
begin

section \<open>Python values, errors and the world outside the module\<close>

text \<open>
  The values that \<^verbatim>\<open>response.json()\<close> hands to the module. A JSON object is kept as the
  list of its members in insertion order (keys distinct, as in a Python dict); JSON
  floats do not occur in the records the module reads and are not represented.
  Strings are lists of characters; header values reach the module decoded one
  character per byte.
\<close>

datatype json =
    JNull
  | JBool bool
  | JInt int
  | JStr string
  | JArr "json list"
  | JObj "(string \<times> json) list"

text \<open>
  Every \<^verbatim>\<open>raise\<close> the modelled code can reach is a value. \<open>Exception n\<close> is the
  \<^verbatim>\<open>Exception(response.status_code)\<close> of \<^verbatim>\<open>get_page\<close>; \<open>ConnectionError\<close> is what
  \<^verbatim>\<open>requests.get\<close> raises when the transport has no response to give; \<open>Unmodelled\<close>
  marks the one place where the embedding stops (the \<^verbatim>\<open>str()\<close> of a list or dict).
\<close>

datatype py_error =
    NameError string
  | KeyError string
  | ValueError
  | TypeError
  | AttributeError
  | Exception int
  | ConnectionError
  | Unmodelled

type_synonym params = "(string \<times> string) list"
type_synonym auth = "(string \<times> string) option"
type_synonym request = "string \<times> params \<times> auth"

text \<open>
  What the module reads of a \<^verbatim>\<open>requests\<close> response: the status code, the headers (a
  case-insensitive dict, kept here under lower-case names, which is how the module
  asks for them) and the parsed body (\<open>None\<close> when the body is not JSON).
\<close>

record response =
  status_code :: int
  headers :: "(string \<times> string) list"
  body :: "json option"

text \<open>
  One entry per \<^verbatim>\<open>sys.stdout.write\<close>. \<open>Utc_text f t\<close> is the format string \<open>f\<close> with
  its \<^verbatim>\<open>{}\<close> filled by the UTC date and time of the POSIX time \<open>t\<close>.
\<close>

datatype written = Text string | Utc_text string int

text \<open>
  The effects of the module: the requests issued, the writes to standard output, the
  arguments of \<^verbatim>\<open>sleep\<close>, the clock read by \<^verbatim>\<open>utcnow\<close> (whole seconds) and the files
  written (path and content). The responses still to come are passed beside the world,
  as a list: each \<^verbatim>\<open>requests.get\<close> takes the first.

  Two settings of the interpreter that runs the module are part of the world as well,
  since its builtins depend on them: \<open>int_max_str_digits\<close> is
  \<^verbatim>\<open>sys.get_int_max_str_digits()\<close>, the longest integer literal \<^verbatim>\<open>int()\<close> converts (0 for no
  limit, which is also what an interpreter without the setting does), and
  \<open>csv_quotes_cr_lf\<close> tells whether its \<^verbatim>\<open>csv.writer\<close> treats a carriage return and a line
  feed in a field as special whatever the line terminator is (newer interpreters do,
  older ones look at the line terminator only).
\<close>

record world =
  request_log :: "request list"
  stdout :: "written list"
  slept :: "int list"
  clock :: int
  files :: "(string \<times> string) list"
  int_max_str_digits :: nat
  csv_quotes_cr_lf :: bool

definition log_request :: "request \<Rightarrow> world \<Rightarrow> world" where
  "log_request rq w = w\<lparr>request_log := request_log w @ [rq]\<rparr>"

definition write_stdout :: "written \<Rightarrow> world \<Rightarrow> world" where
  "write_stdout t w = w\<lparr>stdout := stdout w @ [t]\<rparr>"

definition sleep :: "int \<Rightarrow> world \<Rightarrow> world" where
  "sleep n w = w\<lparr>slept := slept w @ [n], clock := clock w + n\<rparr>"

definition write_file :: "string \<Rightarrow> string \<Rightarrow> world \<Rightarrow> world" where
  "write_file path content w =
     w\<lparr>files := filter (\<lambda>(p, c). p \<noteq> path) (files w) @ [(path, content)]\<rparr>"

subsection \<open>Names bound in the module\<close>

text \<open>
  The global names of \<^verbatim>\<open>github_pulls.py\<close>: the imports of lines 42 to 51, the
  constants of lines 35 to 63, the class and the functions. A name a function reads
  that is neither a local of the function, nor in this list, nor a builtin raises
  \<^verbatim>\<open>NameError\<close> when the line that reads it runs.
\<close>

definition module_globals :: "string list" where
  "module_globals =
     [''__author__'', ''__copyright__'', ''__license__'', ''__status__'', ''__version__'',
      ''sys'', ''os'', ''requests'', ''argparse'', ''configparser'', ''re'', ''json'',
      ''csv'', ''Enum'', ''unique'',
      ''VERBOSE'', ''REPO_BASE'', ''PARAMS'', ''ERR_LABEL'', ''NOTE_LABEL'', ''ERR_INDENT'',
      ''NOTE_INDENT'', ''EXITING_STR'', ''DEFECTS'', ''AuthType'',
      ''is_verbose'', ''get_params'', ''is_defect'', ''wait_it_out'', ''get_page'',
      ''download_pulls'', ''get_pull_requests'', ''get_commits_by_url'',
      ''get_commits_by_pull_num'', ''get_commits_by_pull'', ''analyze_pulls'',
      ''load_config_data'', ''get_auth'']"

definition load_global :: "string \<Rightarrow> py_error + unit" where
  "load_global name = (if name \<in> set module_globals then Inr () else Inl (NameError name))"

definition REPO_BASE :: string where
  "REPO_BASE = ''https://api.github.com/repos/''"

definition NOTE_LABEL :: string where
  "NOTE_LABEL = ''NOTE: ''"

definition NOTE_INDENT :: string where
  "NOTE_INDENT = replicate (length NOTE_LABEL) CHR '' ''"

definition DEFECTS :: "string set" where
  "DEFECTS = {''bug'', ''defect'', ''kind/bug''}"

subsection \<open>Builtins the module calls\<close>

text \<open>\<^verbatim>\<open>str(n)\<close> of an integer.\<close>

function str_nat :: "nat \<Rightarrow> string" where
  "str_nat n =
     (if n < 10 then [''0123456789'' ! n]
      else str_nat (n div 10) @ [''0123456789'' ! (n mod 10)])"
  by pat_completeness auto
termination
  by (relation "measure id") auto

declare str_nat.simps [simp del]

definition str_int :: "int \<Rightarrow> string" where
  "str_int i = (if i < 0 then CHR ''-'' # str_nat (nat (- i)) else str_nat (nat i))"

text \<open>
  \<^verbatim>\<open>int(s)\<close> of a string: white space around, an optional sign, then decimal digits
  with single underscores allowed between them. The white space \<^verbatim>\<open>int()\<close> strips is
  tab, line feed, vertical tab, form feed, carriage return and space, and of the
  characters above 127 the next-line and the no-break space; the separators 28 to 31
  are not stripped. A literal of more than 640 digits that is longer than the
  interpreter's limit is refused.
\<close>

definition is_space :: "char \<Rightarrow> bool" where
  "is_space c = ((of_char c :: nat) \<in> {9, 10, 11, 12, 13, 32, 133, 160})"

definition is_digit :: "char \<Rightarrow> bool" where
  "is_digit c = (48 \<le> (of_char c :: nat) \<and> (of_char c :: nat) \<le> 57)"

definition digit_val :: "char \<Rightarrow> nat" where
  "digit_val c = of_char c - 48"

definition py_strip :: "string \<Rightarrow> string" where
  "py_strip s = rev (dropWhile is_space (rev (dropWhile is_space s)))"

fun int_digits :: "string \<Rightarrow> nat \<Rightarrow> nat option" where
  "int_digits [] acc = Some acc"
| "int_digits [c] acc = (if is_digit c then Some (10 * acc + digit_val c) else None)"
| "int_digits (c # d # ds) acc =
     (if is_digit c then int_digits (d # ds) (10 * acc + digit_val c)
      else if c = CHR ''_'' \<and> is_digit d then int_digits ds (10 * acc + digit_val d)
      else None)"

definition too_many_digits :: "nat \<Rightarrow> string \<Rightarrow> bool" where
  "too_many_digits max_str_digits s =
     (let digits = length (filter is_digit s)
      in digits > 640 \<and> max_str_digits > 0 \<and> digits > max_str_digits)"

definition int_literal :: "nat \<Rightarrow> string \<Rightarrow> py_error + int" where
  "int_literal max_str_digits s =
     (case s of
        [] \<Rightarrow> Inl ValueError
      | c # cs \<Rightarrow>
          if is_digit c then
            (case int_digits cs (digit_val c) of
               None \<Rightarrow> Inl ValueError
             | Some n \<Rightarrow>
                 if too_many_digits max_str_digits s then Inl ValueError else Inr (int n))
          else Inl ValueError)"

definition py_int :: "nat \<Rightarrow> string \<Rightarrow> py_error + int" where
  "py_int max_str_digits s =
     (case py_strip s of
        [] \<Rightarrow> Inl ValueError
      | c # cs \<Rightarrow>
          if c = CHR ''-'' then map_sum id uminus (int_literal max_str_digits cs)
          else if c = CHR ''+'' then int_literal max_str_digits cs
          else int_literal max_str_digits (c # cs))"

text \<open>\<^verbatim>\<open>d[key]\<close> on the headers of a response.\<close>

definition headers_getitem :: "response \<Rightarrow> string \<Rightarrow> py_error + string" where
  "headers_getitem r key =
     (case map_of (headers r) key of None \<Rightarrow> Inl (KeyError key) | Some v \<Rightarrow> Inr v)"

text \<open>\<^verbatim>\<open>response.json()\<close>: a body that is not JSON raises a \<^verbatim>\<open>ValueError\<close>.\<close>

definition response_json :: "response \<Rightarrow> py_error + json" where
  "response_json r = (case body r of None \<Rightarrow> Inl ValueError | Some j \<Rightarrow> Inr j)"

text \<open>\<^verbatim>\<open>v[key]\<close> with a string key: only a dict takes one.\<close>

fun py_getitem :: "json \<Rightarrow> string \<Rightarrow> py_error + json" where
  "py_getitem (JObj kvs) key =
     (case map_of kvs key of None \<Rightarrow> Inl (KeyError key) | Some v \<Rightarrow> Inr v)"
| "py_getitem _ key = Inl TypeError"

text \<open>
  Iterating a value (\<^verbatim>\<open>for x in v\<close>, \<^verbatim>\<open>list.extend(v)\<close>): a list gives its elements,
  a dict its keys, a string its characters; nothing else is iterable.
\<close>

fun py_iter :: "json \<Rightarrow> py_error + json list" where
  "py_iter (JArr xs) = Inr xs"
| "py_iter (JObj kvs) = Inr (map (\<lambda>(k, v). JStr k) kvs)"
| "py_iter (JStr s) = Inr (map (\<lambda>c. JStr [c]) s)"
| "py_iter _ = Inl TypeError"

text \<open>A list or a dict cannot be a member of a set or a key of a dict.\<close>

fun hashable :: "json \<Rightarrow> bool" where
  "hashable (JArr _) = False"
| "hashable (JObj _) = False"
| "hashable _ = True"

text \<open>Python's \<^verbatim>\<open>==\<close> on hashable values: \<^verbatim>\<open>True == 1\<close> and \<^verbatim>\<open>False == 0\<close>.\<close>

fun py_eq :: "json \<Rightarrow> json \<Rightarrow> bool" where
  "py_eq (JBool b) (JInt n) = (n = (if b then 1 else 0))"
| "py_eq (JInt n) (JBool b) = (n = (if b then 1 else 0))"
| "py_eq a b = (a = b)"

text \<open>
  \<^verbatim>\<open>str(v)\<close>, as \<^verbatim>\<open>"{}".format(v)\<close> and the csv writer apply it. The text of a list
  or a dict is not modelled.
\<close>

fun py_str :: "json \<Rightarrow> py_error + string" where
  "py_str JNull = Inr ''None''"
| "py_str (JBool b) = Inr (if b then ''True'' else ''False'')"
| "py_str (JInt n) = Inr (str_int n)"
| "py_str (JStr s) = Inr s"
| "py_str _ = Inl Unmodelled"

section \<open>wait\_it\_out (lines 114 to 141)\<close>

text \<open>
  \<^verbatim>\<open>fstr.format(gh_shared.NOTE_LABEL, msg, mins)\<close>. The second element of \<^verbatim>\<open>fstrlst\<close>
  is \<^verbatim>\<open>{2}\<close> until line 133 replaces it by \<^verbatim>\<open>{1:0.2f}\<close>, which asks for \<^verbatim>\<open>msg\<close>, a
  string, in fixed-point notation: a \<^verbatim>\<open>ValueError\<close>. The module \<^verbatim>\<open>gh_shared\<close> is not
  part of the repository; its label is taken to be the \<^verbatim>\<open>NOTE_LABEL\<close> of this module.
\<close>

definition format_note :: "string list \<Rightarrow> string \<Rightarrow> int \<Rightarrow> py_error + string" where
  "format_note fstrlst msg mins =
     (if fstrlst ! 1 = ''{2}'' then
        Inr (NOTE_LABEL @ msg @ ''\<newline>      '' @ str_int mins @
             '' minutes remaining...'' @ ''\<newline>'')
      else Inl ValueError)"

function wait_loop :: "string \<Rightarrow> int \<Rightarrow> string list \<Rightarrow> world \<Rightarrow> (py_error + unit) \<times> world" where
  "wait_loop msg total_wait fstrlst w =
     (if total_wait \<ge> 0 then
        (let fstrlst' = (if total_wait > 60 then fstrlst else fstrlst[1 := ''{1:0.2f}''])
         in case load_global ''gh_shared'' of
              Inl e \<Rightarrow> (Inl e, w)
            | Inr _ \<Rightarrow>
               (case format_note fstrlst' msg (total_wait div 60) of
                  Inl e \<Rightarrow> (Inl e, w)
                | Inr note \<Rightarrow>
                   (let w1 = write_stdout (Text note) w
                    in case load_global ''sleep'' of
                         Inl e \<Rightarrow> (Inl e, w1)
                       | Inr _ \<Rightarrow>
                           wait_loop msg (total_wait - 240) fstrlst'
                             (sleep (if total_wait > 240 then 240 else total_wait) w1))))
      else
        (case load_global ''gh_shared'' of
           Inl e \<Rightarrow> (Inl e, w)
         | Inr _ \<Rightarrow>
             (Inr (),
              write_stdout
                (Text (NOTE_LABEL @ ''Wait completed, continuing execution...'' @ ''\<newline>''))
                w)))"
  by pat_completeness auto
termination
  by (relation "measure (\<lambda>(msg, total_wait, fstrlst, w). nat (total_wait + 1))") auto

declare wait_loop.simps [simp del]

definition wait_it_out :: "string \<Rightarrow> int \<Rightarrow> world \<Rightarrow> (py_error + unit) \<times> world" where
  "wait_it_out msg total_wait w =
     wait_loop msg (total_wait + 15) [''{0}{1}\<newline>      '', ''{2}'', '' minutes remaining...''] w"

section \<open>get\_page (lines 144 to 172)\<close>

fun get_page ::
  "string \<Rightarrow> params \<Rightarrow> auth \<Rightarrow> response list \<Rightarrow> world \<Rightarrow>
     (py_error + response) \<times> response list \<times> world" where
  "get_page url params auth [] w =
     (Inl ConnectionError, [], log_request (url, params, auth) w)"
| "get_page url params auth (response # script) w0 =
     (let w = log_request (url, params, auth) w0
      in case headers_getitem response ''x-ratelimit-remaining'' of
           Inl e \<Rightarrow> (Inl e, script, w)
         | Inr remaining \<Rightarrow>
            if remaining = ''0'' then
              (let w1 = write_stdout (Text (''Rate Limit Hit, waiting for reset...'' @ ''\<newline>'')) w
               in case headers_getitem response ''x-ratelimit-reset'' of
                    Inl e \<Rightarrow> (Inl e, script, w1)
                  | Inr reset_str \<Rightarrow>
                     (case py_int (int_max_str_digits w1) reset_str of
                        Inl e \<Rightarrow> (Inl e, script, w1)
                      | Inr reset \<Rightarrow>
                         (case load_global ''datetime'' of
                            Inl e \<Rightarrow> (Inl e, script, w1)
                          | Inr _ \<Rightarrow>
                             (let wait_time = (reset - clock w1) mod 86400;
                                  w2 = write_stdout (Utc_text (''Resets at: {}'' @ ''\<newline>'') reset) w1;
                                  w3 = write_stdout (Utc_text (''Currently: {}'' @ ''\<newline>'') (clock w2)) w2;
                                  w4 = write_stdout
                                         (Text (''Waiting:   '' @ str_int (wait_time div 60) @
                                                '' minutes'' @ ''\<newline>'')) w3
                              in case wait_it_out ''Rate Limit Hit'' wait_time w4 of
                                   (Inl e, w5) \<Rightarrow> (Inl e, script, w5)
                                 | (Inr _, w5) \<Rightarrow> get_page url params auth script w5))))
            else if status_code response = 200 then (Inr response, script, w)
            else (Inl (Exception (status_code response)), script, w))"

declare get_page.simps(2) [simp del]

text \<open>
  Every call takes one response from the script, so a call that returns a response
  leaves a shorter script; the loop of \<^verbatim>\<open>download_pulls\<close> terminates on that.
\<close>

lemma get_page_script_shorter:
  "get_page url params auth script w = (Inr r, script', w') \<Longrightarrow> length script' < length script"
proof (induction url params auth script w arbitrary: r script' w' rule: get_page.induct)
  case (1 url params auth w)
  then show ?case by simp
next
  case (2 url params auth response script w0)
  note retry = "2.IH" [OF refl _ _ refl _ _ _ refl refl refl refl, rotated -1]
  from "2.prems" show ?case
    by (simp add: get_page.simps(2) Let_def split: sum.splits if_splits prod.splits)
       (auto dest!: retry)
qed

section \<open>download\_pulls (lines 175 to 206)\<close>

text \<open>\<^verbatim>\<open>s.split(sep)\<close> with a separator of one character.\<close>

fun split_on :: "char \<Rightarrow> string \<Rightarrow> string list" where
  "split_on sep [] = [[]]"
| "split_on sep (c # cs) =
     (if c = sep then [] # split_on sep cs
      else (case split_on sep cs of [] \<Rightarrow> [[c]] | p # ps \<Rightarrow> (c # p) # ps))"

text \<open>\<^verbatim>\<open>s.index(c)\<close>: a \<^verbatim>\<open>ValueError\<close> when the character is not there.\<close>

fun str_index :: "string \<Rightarrow> char \<Rightarrow> py_error + nat" where
  "str_index [] c = Inl ValueError"
| "str_index (x # xs) c = (if x = c then Inr 0 else map_sum id Suc (str_index xs c))"

text \<open>A loop that builds a list and stops at the first exception.\<close>

fun traverse :: "('a \<Rightarrow> py_error + 'b) \<Rightarrow> 'a list \<Rightarrow> py_error + 'b list" where
  "traverse f [] = Inr []"
| "traverse f (x # xs) =
     (case f x of
        Inl e \<Rightarrow> Inl e
      | Inr y \<Rightarrow> (case traverse f xs of Inl e \<Rightarrow> Inl e | Inr ys \<Rightarrow> Inr (y # ys)))"

text \<open>
  One entry of the link header, line 197: \<^verbatim>\<open>ref, reln = refs.split(';')\<close> needs exactly
  two parts; the pair is \<^verbatim>\<open>(reln[6:-1], ref[ref.index('<')+1:-1])\<close>.
\<close>

definition link_entry :: "string \<Rightarrow> py_error + (string \<times> string)" where
  "link_entry refs =
     (case split_on CHR '';'' refs of
        [ref, reln] \<Rightarrow>
          (case str_index ref CHR ''<'' of
             Inl e \<Rightarrow> Inl e
           | Inr i \<Rightarrow> Inr (drop 6 (butlast reln), drop (i + 1) (butlast ref)))
      | _ \<Rightarrow> Inl ValueError)"

text \<open>The dict \<^verbatim>\<open>pages\<close> of lines 196 to 199; of two entries with one relation the later one counts.\<close>

definition link_pages :: "string \<Rightarrow> py_error + (string \<rightharpoonup> string)" where
  "link_pages link =
     (case traverse link_entry (split_on CHR '','' link) of
        Inl e \<Rightarrow> Inl e
      | Inr entries \<Rightarrow> Inr (map_of (rev entries)))"

text \<open>Lines 195 to 205: the value \<^verbatim>\<open>url\<close> has for the next turn of the loop.\<close>

definition next_url :: "response \<Rightarrow> py_error + string option" where
  "next_url response =
     (case map_of (headers response) ''link'' of
        None \<Rightarrow> Inr None
      | Some link \<Rightarrow>
          (case link_pages link of
             Inl e \<Rightarrow> Inl e
           | Inr pages \<Rightarrow>
               if pages ''last'' \<noteq> None \<and> pages ''next'' \<noteq> None then Inr (pages ''next'')
               else Inr None))"

function download_loop ::
  "string option \<Rightarrow> params \<Rightarrow> auth \<Rightarrow> json list \<Rightarrow> nat \<Rightarrow> response list \<Rightarrow> world \<Rightarrow>
     (py_error + json list) \<times> response list \<times> world" where
  "download_loop url params auth pull_reqs total_recs script w =
     (case url of
        None \<Rightarrow> (Inr pull_reqs, script, w)
      | Some u \<Rightarrow>
         (case get_page u params auth script w of
            (Inl e, script1, w1) \<Rightarrow> (Inl e, script1, w1)
          | (Inr response, script1, w1) \<Rightarrow>
             (case response_json response of
                Inl e \<Rightarrow> (Inl e, script1, w1)
              | Inr pull_list \<Rightarrow>
                 (case py_iter pull_list of
                    Inl e \<Rightarrow> (Inl e, script1, w1)
                  | Inr items \<Rightarrow>
                     (let num_pulls = length items;
                          total_recs' = total_recs + num_pulls;
                          w2 = write_stdout
                                 (Text (''Processing '' @ str_nat num_pulls @
                                        '' issues/pull requests, for '' @ str_nat total_recs' @
                                        '' total'' @ ''\<newline>'')) w1
                      in case next_url response of
                           Inl e \<Rightarrow> (Inl e, script1, w2)
                         | Inr url' \<Rightarrow>
                             download_loop url' params auth (pull_reqs @ items) total_recs'
                               script1 w2)))))"
  by pat_completeness auto
termination
  by (relation "measure (\<lambda>(url, params, auth, pull_reqs, total_recs, script, w). length script)")
     (auto dest: get_page_script_shorter sym)

declare download_loop.simps [simp del]

definition download_pulls ::
  "string \<Rightarrow> params \<Rightarrow> auth \<Rightarrow> response list \<Rightarrow> world \<Rightarrow>
     (py_error + json list) \<times> response list \<times> world" where
  "download_pulls url params auth script w = download_loop (Some url) params auth [] 0 script w"

definition get_pull_requests ::
  "string \<Rightarrow> string \<Rightarrow> params \<Rightarrow> auth \<Rightarrow> response list \<Rightarrow> world \<Rightarrow>
     (py_error + json list) \<times> response list \<times> world" where
  "get_pull_requests owner repo params auth script w =
     download_pulls (REPO_BASE @ owner @ ''/'' @ repo @ ''/pulls'') params auth script w"

section \<open>is\_defect (lines 91 to 112)\<close>

text \<open>
  A URL read from a record goes to \<^verbatim>\<open>requests.get\<close>, which refuses what is not a
  string before anything is sent (its exceptions for a URL it cannot prepare are
  \<^verbatim>\<open>ValueError\<close>s).
\<close>

fun url_of :: "json \<Rightarrow> py_error + string" where
  "url_of (JStr s) = Inr s"
| "url_of _ = Inl ValueError"

text \<open>\<^verbatim>\<open>d.get(key, default)\<close>: only a dict has the method.\<close>

fun dict_get :: "json \<Rightarrow> string \<Rightarrow> json \<Rightarrow> py_error + json" where
  "dict_get (JObj kvs) key dflt = Inr (case map_of kvs key of None \<Rightarrow> dflt | Some v \<Rightarrow> v)"
| "dict_get _ key dflt = Inl AttributeError"

definition is_defect ::
  "json \<Rightarrow> params \<Rightarrow> auth \<Rightarrow> response list \<Rightarrow> world \<Rightarrow>
     (py_error + bool) \<times> response list \<times> world" where
  "is_defect pull_req params auth script w =
     (case py_getitem pull_req ''issue_url'' of
        Inl e \<Rightarrow> (Inl e, script, w)
      | Inr issue_url \<Rightarrow>
         (case url_of issue_url of
            Inl e \<Rightarrow> (Inl e, script, w)
          | Inr url \<Rightarrow>
             (case get_page url params auth script w of
                (Inl e, script1, w1) \<Rightarrow> (Inl e, script1, w1)
              | (Inr issue, script1, w1) \<Rightarrow>
                 (case response_json issue of
                    Inl e \<Rightarrow> (Inl e, script1, w1)
                  | Inr issue_json \<Rightarrow>
                     (case dict_get issue_json ''labels'' (JArr []) of
                        Inl e \<Rightarrow> (Inl e, script1, w1)
                      | Inr labels \<Rightarrow>
                         (case py_iter labels of
                            Inl e \<Rightarrow> (Inl e, script1, w1)
                          | Inr ls \<Rightarrow>
                             (case traverse (\<lambda>l. py_getitem l ''name'') ls of
                                Inl e \<Rightarrow> (Inl e, script1, w1)
                              | Inr label_names \<Rightarrow>
                                 if \<not> list_all hashable label_names then (Inl TypeError, script1, w1)
                                 else
                                   (let isect = Set.filter (\<lambda>d. JStr d \<in> set label_names) DEFECTS
                                    in (Inr (isect \<noteq> {}), script1, w1)))))))))"

section \<open>The commits of a pull request (lines 230 to 288)\<close>

definition get_commits_by_url ::
  "string \<Rightarrow> params \<Rightarrow> auth \<Rightarrow> response list \<Rightarrow> world \<Rightarrow>
     (py_error + json list) \<times> response list \<times> world" where
  "get_commits_by_url commits_url params auth script w =
     (case get_page commits_url params auth script w of
        (Inl e, script1, w1) \<Rightarrow> (Inl e, script1, w1)
      | (Inr response, script1, w1) \<Rightarrow>
         (case response_json response of
            Inl e \<Rightarrow> (Inl e, script1, w1)
          | Inr commits \<Rightarrow>
             (case py_iter commits of
                Inl e \<Rightarrow> (Inl e, script1, w1)
              | Inr cs \<Rightarrow>
                 (case traverse (\<lambda>c. py_getitem c ''sha'') cs of
                    Inl e \<Rightarrow> (Inl e, script1, w1)
                  | Inr commit_shas \<Rightarrow> (Inr commit_shas, script1, w1)))))"

definition get_commits_by_pull_num ::
  "int \<Rightarrow> string \<Rightarrow> string \<Rightarrow> params \<Rightarrow> auth \<Rightarrow> response list \<Rightarrow> world \<Rightarrow>
     (py_error + json list) \<times> response list \<times> world" where
  "get_commits_by_pull_num pull_num owner repo params auth script w =
     get_commits_by_url
       (REPO_BASE @ owner @ ''/'' @ repo @ ''/pulls/'' @ str_int pull_num @ ''/commits'')
       params auth script w"

definition get_commits_by_pull ::
  "json \<Rightarrow> params \<Rightarrow> auth \<Rightarrow> response list \<Rightarrow> world \<Rightarrow>
     (py_error + json list) \<times> response list \<times> world" where
  "get_commits_by_pull pull params auth script w =
     (case py_getitem pull ''commits_url'' of
        Inl e \<Rightarrow> (Inl e, script, w)
      | Inr commits_url \<Rightarrow>
         (case url_of commits_url of
            Inl e \<Rightarrow> (Inl e, script, w)
          | Inr url \<Rightarrow> get_commits_by_url url params auth script w))"

section \<open>analyze\_pulls (lines 292 to 368)\<close>

text \<open>
  Lines 318 to 324, the progress marker of one turn of the loop: the new world and the
  new value of \<^verbatim>\<open>progress\<close>.
\<close>

definition progress_marker :: "int \<Rightarrow> world \<Rightarrow> world \<times> int" where
  "progress_marker progress w =
     (let w1 = (if progress div 10 > 0 then write_stdout (Text ''*'') w else w);
          progress1 = progress + 1
      in if progress1 = 71 then (write_stdout (Text ''\<newline>'') w1, 0) else (w1, progress1))"

text \<open>
  \<^verbatim>\<open>d[key] = value\<close> on a dict kept in insertion order: a key that is already there
  keeps its place and takes the new value.
\<close>

fun dict_set :: "(json \<times> 'v) list \<Rightarrow> json \<Rightarrow> 'v \<Rightarrow> (json \<times> 'v) list" where
  "dict_set [] k v = [(k, v)]"
| "dict_set ((k', v') # d) k v =
     (if py_eq k' k then (k', v) # d else (k', v') # dict_set d k v)"

text \<open>
  The loop of lines 317 to 332 over the pulls still to check, with the locals it
  updates: \<^verbatim>\<open>shas\<close>, \<^verbatim>\<open>pull_commits\<close> and \<^verbatim>\<open>progress\<close>.
\<close>

fun classify_loop ::
  "bool \<Rightarrow> params \<Rightarrow> auth \<Rightarrow> json list \<Rightarrow> json list \<Rightarrow> (json \<times> json list) list \<Rightarrow> int \<Rightarrow>
     response list \<Rightarrow> world \<Rightarrow>
     (py_error + json list \<times> (json \<times> json list) list) \<times> response list \<times> world" where
  "classify_loop VERBOSE params auth [] shas pull_commits progress script w =
     (Inr (shas, pull_commits), script, w)"
| "classify_loop VERBOSE params auth (p # pulls) shas pull_commits progress script w0 =
     (let (w, progress') = (if VERBOSE then progress_marker progress w0 else (w0, progress))
      in case is_defect p params auth script w of
           (Inl e, script1, w1) \<Rightarrow> (Inl e, script1, w1)
         | (Inr False, script1, w1) \<Rightarrow>
             classify_loop VERBOSE params auth pulls shas pull_commits progress' script1 w1
         | (Inr True, script1, w1) \<Rightarrow>
            (case get_commits_by_pull p params auth script1 w1 of
               (Inl e, script2, w2) \<Rightarrow> (Inl e, script2, w2)
             | (Inr commits, script2, w2) \<Rightarrow>
                (case py_getitem p ''number'' of
                   Inl e \<Rightarrow> (Inl e, script2, w2)
                 | Inr number \<Rightarrow>
                    if \<not> hashable number then (Inl TypeError, script2, w2)
                    else classify_loop VERBOSE params auth pulls (shas @ commits)
                           (dict_set pull_commits number commits) progress' script2 w2)))"

subsection \<open>The CSV artifact (lines 343 to 352)\<close>

text \<open>
  The writer is \<^verbatim>\<open>csv.writer(f, quoting=csv.QUOTE_MINIMAL, lineterminator=os.linesep)\<close>.
  A field is written as its \<^verbatim>\<open>str()\<close> (\<^verbatim>\<open>None\<close> as the empty string), between double
  quotes and with its double quotes doubled when it holds the delimiter, a double quote
  or a character of the line terminator; where \<open>quote_cr_lf\<close> is set (the
  \<open>csv_quotes_cr_lf\<close> of the world), also when it holds a carriage return or a line feed.
\<close>

definition csv_field :: "json \<Rightarrow> py_error + string" where
  "csv_field v = (case v of JNull \<Rightarrow> Inr [] | _ \<Rightarrow> py_str v)"

definition csv_special :: "bool \<Rightarrow> string \<Rightarrow> char \<Rightarrow> bool" where
  "csv_special quote_cr_lf lineterminator c =
     (c = CHR '','' \<or> c = CHR 0x22 \<or> c \<in> set lineterminator \<or>
      quote_cr_lf \<and> (c = CHR 0x0D \<or> c = CHR 0x0A))"

definition csv_quote :: "bool \<Rightarrow> string \<Rightarrow> string \<Rightarrow> string" where
  "csv_quote quote_cr_lf lineterminator field =
     (if list_ex (csv_special quote_cr_lf lineterminator) field then
        [CHR 0x22] @ concat (map (\<lambda>c. if c = CHR 0x22 then [c, c] else [c]) field) @ [CHR 0x22]
      else field)"

fun join :: "string \<Rightarrow> string list \<Rightarrow> string" where
  "join sep [] = []"
| "join sep [x] = x"
| "join sep (x # y # ys) = x @ sep @ join sep (y # ys)"

definition csv_row :: "bool \<Rightarrow> string \<Rightarrow> string list \<Rightarrow> string" where
  "csv_row quote_cr_lf lineterminator cells =
     (if cells = [[]] then [CHR 0x22, CHR 0x22]
      else join '','' (map (csv_quote quote_cr_lf lineterminator) cells)) @ lineterminator"

definition writerow :: "bool \<Rightarrow> string \<Rightarrow> json list \<Rightarrow> string \<Rightarrow> py_error + string" where
  "writerow quote_cr_lf lineterminator row f =
     (case traverse csv_field row of
        Inl e \<Rightarrow> Inl e
      | Inr cells \<Rightarrow> Inr (f @ csv_row quote_cr_lf lineterminator cells))"

text \<open>Lines 351 and 352: the rows of one pull.\<close>

fun write_commits ::
  "bool \<Rightarrow> string \<Rightarrow> string \<Rightarrow> string \<Rightarrow> json \<Rightarrow> json list \<Rightarrow> string \<Rightarrow>
     py_error + string" where
  "write_commits quote_cr_lf lineterminator owner repo p [] f = Inr f"
| "write_commits quote_cr_lf lineterminator owner repo p (s # ss) f =
     (case writerow quote_cr_lf lineterminator [p, s, JStr owner, JStr repo] f of
        Inl e \<Rightarrow> Inl e
      | Inr f' \<Rightarrow> write_commits quote_cr_lf lineterminator owner repo p ss f')"

text \<open>Lines 350 to 352: the rows of every pull of the mapping.\<close>

fun write_pulls ::
  "bool \<Rightarrow> string \<Rightarrow> string \<Rightarrow> string \<Rightarrow> (json \<times> json list) list \<Rightarrow> string \<Rightarrow>
     py_error + string" where
  "write_pulls quote_cr_lf lineterminator owner repo [] f = Inr f"
| "write_pulls quote_cr_lf lineterminator owner repo ((p, commits) # pull_commits) f =
     (case write_commits quote_cr_lf lineterminator owner repo p commits f of
        Inl e \<Rightarrow> Inl e
      | Inr f' \<Rightarrow> write_pulls quote_cr_lf lineterminator owner repo pull_commits f')"

text \<open>Lines 344 to 352: the content of the file, from the header row on.\<close>

definition write_csv ::
  "bool \<Rightarrow> string \<Rightarrow> string \<Rightarrow> string \<Rightarrow> (json \<times> json list) list \<Rightarrow> py_error + string" where
  "write_csv quote_cr_lf lineterminator owner repo pull_commits =
     (case writerow quote_cr_lf lineterminator
             [JStr ''Pull'', JStr ''Commit-SHA'', JStr ''Owner'', JStr ''Repo''] [] of
        Inl e \<Rightarrow> Inl e
      | Inr f \<Rightarrow> write_pulls quote_cr_lf lineterminator owner repo pull_commits f)"

text \<open>Lines 339 to 341: one line per commit, \<^verbatim>\<open>"{}\n".format(s)\<close>.\<close>

definition write_txt :: "json list \<Rightarrow> py_error + string" where
  "write_txt shas =
     (case traverse py_str shas of
        Inl e \<Rightarrow> Inl e
      | Inr lines \<Rightarrow> Inr (concat (map (\<lambda>l. l @ ''\<newline>'') lines)))"

text \<open>
  The function. \<^verbatim>\<open>VERBOSE\<close> is the module's global of line 53, which a script that
  imports the module may set; \<^verbatim>\<open>linesep\<close> is \<^verbatim>\<open>os.linesep\<close>. The third file, the JSON
  document of lines 354 to 364, is written after the two modelled here from the same
  mapping and is left out.
\<close>

definition analyze_pulls ::
  "bool \<Rightarrow> string \<Rightarrow> string \<Rightarrow> string \<Rightarrow> params \<Rightarrow> auth \<Rightarrow> response list \<Rightarrow> world \<Rightarrow>
     (py_error + json list) \<times> response list \<times> world" where
  "analyze_pulls VERBOSE linesep owner repo params auth script w =
     (case get_pull_requests owner repo params auth script w of
        (Inl e, script1, w1) \<Rightarrow> (Inl e, script1, w1)
      | (Inr pulls, script1, w1) \<Rightarrow>
         (let w2 = write_stdout
                     (Text (NOTE_LABEL @ ''Checking for defects associated with pull requests.'' @
                            ''\<newline>'' @ NOTE_INDENT @ ''This might take a bit of time...'' @
                            ''\<newline>'')) w1
          in case classify_loop VERBOSE params auth pulls [] [] 0 script1 w2 of
               (Inl e, script2, w3) \<Rightarrow> (Inl e, script2, w3)
             | (Inr (shas, pull_commits), script2, w3) \<Rightarrow>
                (let w4 = (if VERBOSE then write_stdout (Text ''\<newline>'') w3 else w3)
                 in case write_txt shas of
                      Inl e \<Rightarrow> (Inl e, script2, w4)
                    | Inr txt \<Rightarrow>
                       (let w5 = write_file (''./'' @ repo @ ''_pulls.txt'') txt w4
                        in case write_csv (csv_quotes_cr_lf w5) linesep owner repo pull_commits of
                             Inl e \<Rightarrow> (Inl e, script2, w5)
                           | Inr csv \<Rightarrow>
                               (Inr shas, script2,
                                write_file (''./'' @ repo @ ''_pulls.csv'') csv w5)))))"

subsection \<open>The result the specification describes\<close>

text \<open>
  The specification's account of a run over \<open>pulls\<close>: the pulls that \<^verbatim>\<open>is_defect\<close>
  classifies as defect-associated, in iteration order, each with the commit list that
  \<^verbatim>\<open>get_commits_by_pull\<close> returns for it. The accumulators of the loop are compared with
  it below.
\<close>

fun defect_pulls ::
  "params \<Rightarrow> auth \<Rightarrow> json list \<Rightarrow> response list \<Rightarrow> world \<Rightarrow> (json \<times> json list) list" where
  "defect_pulls params auth [] script w = []"
| "defect_pulls params auth (p # pulls) script w =
     (case is_defect p params auth script w of
        (Inl e, script1, w1) \<Rightarrow> []
      | (Inr False, script1, w1) \<Rightarrow> defect_pulls params auth pulls script1 w1
      | (Inr True, script1, w1) \<Rightarrow>
         (case get_commits_by_pull p params auth script1 w1 of
            (Inl e, script2, w2) \<Rightarrow> []
          | (Inr commits, script2, w2) \<Rightarrow>
              (p, commits) # defect_pulls params auth pulls script2 w2))"

text \<open>
  The amended account of the progress markers: what the loop writes for the pull at
  position \<open>i\<close> (from 0) when \<^verbatim>\<open>VERBOSE\<close> is set.
\<close>

definition marks_at :: "nat \<Rightarrow> written list" where
  "marks_at i =
     (if i mod 71 \<ge> 10 then [Text ''*''] else []) @
     (if i mod 71 = 70 then [Text ''\<newline>''] else [])"

subsection \<open>Example records and responses\<close>

text \<open>
  A pull request record, a response that \<^verbatim>\<open>get_page\<close> returns, an issue with the given
  label names, a commit list with the given hashes, and a world in which nothing has
  happened yet; the concrete runs below are built from them.
\<close>

definition example_pull :: "int \<Rightarrow> json" where
  "example_pull n =
     JObj [(''number'', JInt n),
           (''issue_url'', JStr (''https://api.github.com/repos/o/r/issues/'' @ str_int n)),
           (''commits_url'', JStr (''https://api.github.com/repos/o/r/pulls/'' @ str_int n @ ''/commits''))]"

definition example_page :: "json \<Rightarrow> response" where
  "example_page j = \<lparr>status_code = 200, headers = [(''x-ratelimit-remaining'', ''4999'')], body = Some j\<rparr>"

definition example_issue :: "string list \<Rightarrow> response" where
  "example_issue names = example_page (JObj [(''labels'', JArr (map (\<lambda>n. JObj [(''name'', JStr n)]) names))])"

definition example_commits :: "string list \<Rightarrow> response" where
  "example_commits shas = example_page (JArr (map (\<lambda>s. JObj [(''sha'', JStr s)]) shas))"

definition idle :: world where
  "idle = \<lparr>request_log = [], stdout = [], slept = [], clock = 0, files = [],
            int_max_str_digits = 4300, csv_quotes_cr_lf = True\<rparr>"

section \<open>The rate-limit branch and the names it reads\<close>

text \<open>
  Lines 42 to 51 import neither \<^verbatim>\<open>datetime\<close> nor \<^verbatim>\<open>sleep\<close> nor \<^verbatim>\<open>gh_shared\<close>, and
  nothing else in the module binds them.
\<close>

lemma load_global_datetime: "load_global ''datetime'' = Inl (NameError ''datetime'')"
  by (simp add: load_global_def module_globals_def)

lemma load_global_gh_shared: "load_global ''gh_shared'' = Inl (NameError ''gh_shared'')"
  by (simp add: load_global_def module_globals_def)

lemma load_global_sleep: "load_global ''sleep'' = Inl (NameError ''sleep'')"
  by (simp add: load_global_def module_globals_def)

lemma wait_it_out_raises: "wait_it_out msg total_wait w = (Inl (NameError ''gh_shared''), w)"
  by (simp add: wait_it_out_def wait_loop.simps [of msg "total_wait + 15"] load_global_gh_shared)

lemma settings_kept [simp]:
  "int_max_str_digits (write_stdout t w) = int_max_str_digits w"
  "int_max_str_digits (log_request rq w) = int_max_str_digits w"
  "csv_quotes_cr_lf (write_stdout t w) = csv_quotes_cr_lf w"
  "csv_quotes_cr_lf (log_request rq w) = csv_quotes_cr_lf w"
  "csv_quotes_cr_lf (write_file path content w) = csv_quotes_cr_lf w"
  by (simp_all add: write_stdout_def log_request_def write_file_def)

lemma py_int_error: "py_int max_str_digits s = Inl e \<Longrightarrow> e = ValueError"
  by (auto simp: py_int_def int_literal_def map_sum_def
           split: list.splits if_splits option.splits sum.splits)

lemma get_page_no_header:
  "map_of (headers response) ''x-ratelimit-remaining'' = None \<Longrightarrow>
   get_page url params auth (response # script) w =
     (Inl (KeyError ''x-ratelimit-remaining''), script, log_request (url, params, auth) w)"
  by (simp add: get_page.simps(2) headers_getitem_def)

lemma get_page_served:
  "map_of (headers response) ''x-ratelimit-remaining'' = Some remaining \<Longrightarrow> remaining \<noteq> ''0'' \<Longrightarrow>
   get_page url params auth (response # script) w =
     (if status_code response = 200 then Inr response else Inl (Exception (status_code response)),
      script, log_request (url, params, auth) w)"
  by (simp add: get_page.simps(2) headers_getitem_def)

lemma get_page_rate_limited:
  "map_of (headers response) ''x-ratelimit-remaining'' = Some ''0'' \<Longrightarrow>
   get_page url params auth (response # script) w =
     (Inl (case map_of (headers response) ''x-ratelimit-reset'' of
             None \<Rightarrow> KeyError ''x-ratelimit-reset''
           | Some v \<Rightarrow>
               (case py_int (int_max_str_digits w) v of
                  Inl e \<Rightarrow> ValueError
                | Inr reset \<Rightarrow> NameError ''datetime'')),
      script,
      write_stdout (Text (''Rate Limit Hit, waiting for reset...'' @ ''\<newline>''))
        (log_request (url, params, auth) w))"
  by (auto simp: get_page.simps(2) headers_getitem_def Let_def load_global_datetime
           split: option.splits sum.splits dest: py_int_error)

subsection \<open>Decimal numerals and what int() accepts\<close>

lemma digit_chars:
  assumes "k < 10"
  shows "is_digit (''0123456789'' ! k)" and "digit_val (''0123456789'' ! k) = k"
proof -
  from assms have "k \<in> {0, 1, 2, 3, 4, 5, 6, 7, 8, 9}" by auto
  then show "is_digit (''0123456789'' ! k)" and "digit_val (''0123456789'' ! k) = k"
    by (auto simp: is_digit_def digit_val_def)
qed

lemma str_nat_nonempty: "str_nat n \<noteq> []"
  by (subst str_nat.simps) simp

lemma str_nat_digits: "c \<in> set (str_nat n) \<Longrightarrow> is_digit c"
proof (induction n arbitrary: c rule: str_nat.induct)
  case (1 n)
  show ?case
  proof (cases "n < 10")
    case True
    with "1.prems" show ?thesis by (simp add: str_nat.simps [of n] digit_chars)
  next
    case False
    with "1.prems" "1.IH" show ?thesis
      by (auto simp: str_nat.simps [of n] digit_chars)
  qed
qed

lemma str_nat_value: "foldl (\<lambda>a c. 10 * a + digit_val c) 0 (str_nat n) = n"
proof (induction n rule: str_nat.induct)
  case (1 n)
  show ?case
  proof (cases "n < 10")
    case True
    then show ?thesis by (simp add: str_nat.simps [of n] digit_chars)
  next
    case False
    with "1.IH" show ?thesis
      by (simp add: str_nat.simps [of n] digit_chars)
  qed
qed

lemma str_nat_zero: "str_nat 0 = ''0''"
  by (simp add: str_nat.simps)

lemma str_nat_leading: "(hd (str_nat n) = CHR ''0'') = (n = 0)"
proof (induction n rule: str_nat.induct)
  case (1 n)
  show ?case
  proof (cases "n < 10")
    case True
    then have small: "str_nat n = [''0123456789'' ! n]"
      by (simp add: str_nat.simps [of n])
    from True have "n \<in> {0, 1, 2, 3, 4, 5, 6, 7, 8, 9}" by auto
    then show ?thesis unfolding small by auto
  next
    case False
    then have "n div 10 \<noteq> 0" by simp
    with False "1.IH" show ?thesis
      by (simp add: str_nat.simps [of n] str_nat_nonempty)
  qed
qed

lemma int_digits_plain:
  "\<forall>c \<in> set ds. is_digit c \<Longrightarrow>
   int_digits ds acc = Some (foldl (\<lambda>a c. 10 * a + digit_val c) acc ds)"
  by (induction ds acc rule: int_digits.induct) auto

lemma digit_not_space: "is_digit c \<Longrightarrow> \<not> is_space c"
  by (auto simp: is_digit_def is_space_def)

lemma py_int_needs_digit:
  assumes "\<forall>c \<in> set v. \<not> is_digit c"
  shows "py_int lim v = Inl ValueError"
proof -
  have "set (dropWhile is_space (rev (dropWhile is_space v))) \<subseteq>
          set (rev (dropWhile is_space v))"
    by (auto dest: set_dropWhileD)
  moreover have "set (dropWhile is_space v) \<subseteq> set v"
    by (auto dest: set_dropWhileD)
  ultimately have sub: "set (py_strip v) \<subseteq> set v"
    by (auto simp: py_strip_def)
  show ?thesis
  proof (cases "py_strip v")
    case Nil
    then show ?thesis by (simp add: py_int_def)
  next
    case (Cons c cs)
    with sub assms have "\<not> is_digit c" "cs = [] \<or> \<not> is_digit (hd cs)"
      by (cases cs; auto)+
    with Cons show ?thesis
      by (cases cs) (auto simp: py_int_def int_literal_def)
  qed
qed

lemma is_digit_iff: "is_digit c = (c \<in> set ''0123456789'')"
proof
  assume d: "is_digit c"
  define n :: nat where "n = of_char c"
  from d have "48 \<le> n" "n \<le> 57" by (simp_all add: is_digit_def n_def)
  then have "n \<in> {48, 49, 50, 51, 52, 53, 54, 55, 56, 57}" by auto arith
  then have "n \<in> of_char ` set ''0123456789''" by simp
  then obtain d where "d \<in> set ''0123456789''" and "n = of_char d"
    by (rule imageE)
  then show "c \<in> set ''0123456789''" by (simp only: n_def of_char_eq_iff)
next
  assume "c \<in> set ''0123456789''"
  then show "is_digit c" by (auto simp: is_digit_def)
qed

lemma is_space_iff:
  "is_space c = (c \<in> set [CHR 0x09, CHR 0x0A, CHR 0x0B, CHR 0x0C, CHR 0x0D, CHR 0x20,
                            CHR 0x85, CHR 0xA0])"
proof
  assume sp: "is_space c"
  define n :: nat where "n = of_char c"
  from sp have "n \<in> of_char ` set [CHR 0x09, CHR 0x0A, CHR 0x0B, CHR 0x0C, CHR 0x0D, CHR 0x20,
                                   CHR 0x85, CHR 0xA0]"
    by (simp add: is_space_def n_def)
  then obtain d where "d \<in> set [CHR 0x09, CHR 0x0A, CHR 0x0B, CHR 0x0C, CHR 0x0D, CHR 0x20,
                                 CHR 0x85, CHR 0xA0]" and "n = of_char d"
    by (rule imageE)
  then show "c \<in> set [CHR 0x09, CHR 0x0A, CHR 0x0B, CHR 0x0C, CHR 0x0D, CHR 0x20,
                       CHR 0x85, CHR 0xA0]"
    by (simp only: n_def of_char_eq_iff)
next
  assume "c \<in> set [CHR 0x09, CHR 0x0A, CHR 0x0B, CHR 0x0C, CHR 0x0D, CHR 0x20,
                   CHR 0x85, CHR 0xA0]"
  then show "is_space c" by (auto simp: is_space_def)
qed

lemma py_strip_around:
  assumes "\<forall>c \<in> set pre. is_space c" and "\<forall>c \<in> set post. is_space c"
    and "mid \<noteq> []" and "\<not> is_space (hd mid)" and "\<not> is_space (last mid)"
  shows "py_strip (pre @ mid @ post) = mid"
proof -
  from assms(3,4) have "dropWhile is_space (mid @ post) = mid @ post"
    by (cases mid) simp_all
  with assms(1) have front: "dropWhile is_space (pre @ mid @ post) = mid @ post"
    by (simp add: dropWhile_append2)
  from assms(3,5) have "dropWhile is_space (rev mid) = rev mid"
    by (cases "rev mid") (simp_all add: hd_rev [symmetric])
  moreover have "dropWhile is_space (rev post @ rev mid) = dropWhile is_space (rev mid)"
    by (rule dropWhile_append2) (use assms(2) in simp)
  ultimately have "dropWhile is_space (rev post @ rev mid) = rev mid"
    by (simp only:)
  with front show ?thesis by (simp add: py_strip_def)
qed

lemma int_literal_numeral:
  assumes "length (str_nat t) \<le> 640 \<or> lim = 0 \<or> length (str_nat t) \<le> lim"
  shows "int_literal lim (str_nat t) = Inr (int t)"
proof -
  obtain c cs where s: "str_nat t = c # cs"
    using str_nat_nonempty [of t] by (cases "str_nat t") auto
  have dig: "\<forall>c \<in> set (str_nat t). is_digit c" using str_nat_digits by blast
  then have c: "is_digit c" and cs: "\<forall>c \<in> set cs. is_digit c" using s by simp_all
  have "foldl (\<lambda>a c. 10 * a + digit_val c) (digit_val c) cs = t"
    using str_nat_value [of t] by (simp add: s)
  then have val: "int_digits cs (digit_val c) = Some t"
    using int_digits_plain [OF cs] by simp
  have "length (filter is_digit (str_nat t)) = length (str_nat t)"
    using dig by (simp add: filter_id_conv)
  with assms have few: "\<not> too_many_digits lim (str_nat t)"
    by (auto simp: too_many_digits_def Let_def)
  with s c val show ?thesis
    by (simp add: int_literal_def)
qed

lemma str_nat_ends: "is_digit (hd (str_nat t))" "is_digit (last (str_nat t))"
  using str_nat_digits [of _ t] str_nat_nonempty [of t] by simp_all

lemma py_int_padded:
  assumes "length (str_nat t) \<le> 640 \<or> lim = 0 \<or> length (str_nat t) \<le> lim"
    and "\<forall>c \<in> set pre. is_space c" and "\<forall>c \<in> set post. is_space c"
  shows "py_int lim (pre @ str_nat t @ post) = Inr (int t)"
    and "py_int lim (pre @ CHR ''+'' # str_nat t @ post) = Inr (int t)"
    and "py_int lim (pre @ CHR ''-'' # str_nat t @ post) = Inr (- int t)"
proof -
  obtain c cs where s: "str_nat t = c # cs"
    using str_nat_nonempty [of t] by (cases "str_nat t") auto
  from str_nat_ends [of t] s have c: "is_digit c" by simp
  then have sign: "c \<noteq> CHR ''-''" "c \<noteq> CHR ''+''" by (auto simp: is_digit_def)
  have ends: "\<not> is_space (hd (str_nat t))" "\<not> is_space (last (str_nat t))"
    using str_nat_ends [of t] by (simp_all add: digit_not_space)
  have plain: "py_strip (pre @ str_nat t @ post) = str_nat t"
    using assms(2,3) str_nat_nonempty ends by (rule py_strip_around)
  have nsp: "\<not> is_space CHR ''+''" "\<not> is_space CHR ''-''" by (simp_all add: is_space_def)
  have plus: "py_strip (pre @ (CHR ''+'' # str_nat t) @ post) = CHR ''+'' # str_nat t"
    using assms(2,3) by (rule py_strip_around) (use nsp ends str_nat_nonempty in simp_all)
  have minus: "py_strip (pre @ (CHR ''-'' # str_nat t) @ post) = CHR ''-'' # str_nat t"
    using assms(2,3) by (rule py_strip_around) (use nsp ends str_nat_nonempty in simp_all)
  from plain s sign show "py_int lim (pre @ str_nat t @ post) = Inr (int t)"
    using int_literal_numeral [OF assms(1)] by (simp add: py_int_def)
  from plus show "py_int lim (pre @ CHR ''+'' # str_nat t @ post) = Inr (int t)"
    using int_literal_numeral [OF assms(1)] by (simp add: py_int_def)
  from minus show "py_int lim (pre @ CHR ''-'' # str_nat t @ post) = Inr (- int t)"
    using int_literal_numeral [OF assms(1)] by (simp add: py_int_def)
qed

lemma int_digits_last:
  "int_digits cs acc = Some n \<Longrightarrow> cs \<noteq> [] \<Longrightarrow> is_digit (last cs)"
proof (induction cs acc rule: int_digits.induct)
  case (1 acc)
  then show ?case by simp
next
  case (2 c acc)
  then show ?case by (simp split: if_splits)
next
  case (3 c d ds acc)
  show ?case
  proof (cases "is_digit c")
    case True
    with 3 show ?thesis by simp
  next
    case False
    with "3.prems" have u: "c = CHR ''_''" and d: "is_digit d"
      and rest: "int_digits ds (10 * acc + digit_val d) = Some n"
      by (simp_all split: if_splits)
    show ?thesis
    proof (cases ds)
      case Nil
      with d show ?thesis by simp
    next
      case (Cons e es)
      with "3.IH"(2) [OF False _ rest] u d show ?thesis by simp
    qed
  qed
qed

lemma int_literal_ends:
  assumes "int_literal lim s = Inr n"
  shows "s \<noteq> [] \<and> is_digit (hd s) \<and> is_digit (last s)"
proof (cases s)
  case Nil
  with assms show ?thesis by (simp add: int_literal_def)
next
  case (Cons c cs)
  with assms have c: "is_digit c" and "\<exists>m. int_digits cs (digit_val c) = Some m"
    by (auto simp: int_literal_def split: if_splits option.splits)
  then obtain m where m: "int_digits cs (digit_val c) = Some m" by blast
  show ?thesis
  proof (cases cs)
    case Nil
    with Cons c show ?thesis by simp
  next
    case (Cons d ds)
    with int_digits_last [OF m] have "is_digit (last cs)" by simp
    with Cons \<open>s = c # cs\<close> c show ?thesis by simp
  qed
qed

lemma py_strip_hd:
  assumes "s \<noteq> []" and "\<not> is_space (hd s)"
  shows "py_strip s \<noteq> [] \<and> hd (py_strip s) = hd s"
proof -
  from assms have front: "dropWhile is_space s = s" by (cases s) simp_all
  define d where "d = dropWhile is_space (rev s)"
  from assms have "hd s \<in> set (rev s)" by simp
  with assms(2) have d: "d \<noteq> []"
    unfolding d_def by (auto simp: dropWhile_eq_Nil_conv)
  have "rev s = takeWhile is_space (rev s) @ d"
    by (simp add: d_def)
  then have "rev (rev s) = rev (takeWhile is_space (rev s) @ d)" by (simp only:)
  then have "s = rev d @ rev (takeWhile is_space (rev s))" by simp
  then have "hd s = hd (rev d @ rev (takeWhile is_space (rev s)))" by (simp only:)
  with d have "hd s = hd (rev d)" by simp
  with d show ?thesis by (simp add: py_strip_def front d_def)
qed

lemma py_strip_last:
  assumes "s \<noteq> []" and "\<not> is_space (last s)"
  shows "py_strip s \<noteq> [] \<and> last (py_strip s) = last s"
proof -
  define d where "d = dropWhile is_space s"
  from assms have "last s \<in> set s" by simp
  with assms(2) have d: "d \<noteq> []"
    unfolding d_def by (auto simp: dropWhile_eq_Nil_conv)
  have "s = takeWhile is_space s @ d" by (simp add: d_def)
  then have "last s = last (takeWhile is_space s @ d)" by (simp only:)
  with d have l: "last s = last d" by simp
  with assms(2) d have "\<not> is_space (hd (rev d))" by (simp add: hd_rev)
  with d have "dropWhile is_space (rev d) = rev d" by (cases "rev d") simp_all
  then have "py_strip s = d" by (simp add: py_strip_def d_def)
  with d l show ?thesis by simp
qed

lemma py_int_Inr:
  assumes "py_int lim s = Inr n"
  shows "py_strip s \<noteq> [] \<and>
         (is_digit (hd (py_strip s)) \<or> hd (py_strip s) = CHR ''+'' \<or> hd (py_strip s) = CHR ''-'') \<and>
         is_digit (last (py_strip s))"
proof (cases "py_strip s")
  case Nil
  with assms show ?thesis by (simp add: py_int_def)
next
  case (Cons c cs)
  show ?thesis
  proof (cases "c = CHR ''-'' \<or> c = CHR ''+''")
    case True
    with assms Cons have "\<exists>m. int_literal lim cs = Inr m"
      by (cases "int_literal lim cs") (auto simp: py_int_def)
    then obtain m where "int_literal lim cs = Inr m" by blast
    from int_literal_ends [OF this] have "cs \<noteq> []" "is_digit (last cs)" by simp_all
    with True Cons show ?thesis by auto
  next
    case False
    with assms Cons have "int_literal lim (c # cs) = Inr n" by (simp add: py_int_def)
    from int_literal_ends [OF this] Cons show ?thesis by simp
  qed
qed

lemma py_int_refuses:
  assumes "s = [] \<or>
           \<not> (is_digit (hd s) \<or> hd s = CHR ''+'' \<or> hd s = CHR ''-'' \<or> is_space (hd s)) \<or>
           \<not> (is_digit (last s) \<or> is_space (last s))"
  shows "py_int lim s = Inl ValueError"
proof (cases "py_int lim s")
  case (Inl e)
  then show ?thesis by (simp add: py_int_error [OF Inl])
next
  case (Inr n)
  note ok = py_int_Inr [OF Inr]
  have False
  proof (cases "s = []")
    case True
    with ok show False by (simp add: py_strip_def)
  next
    case False
    with assms consider
        (front) "\<not> is_digit (hd s)" "hd s \<noteq> CHR ''+''" "hd s \<noteq> CHR ''-''" "\<not> is_space (hd s)"
      | (rear) "\<not> is_digit (last s)" "\<not> is_space (last s)"
      by blast
    then show False
    proof cases
      case front
      with py_strip_hd [OF False front(4)] ok show False by simp
    next
      case rear
      with py_strip_last [OF False rear(2)] ok show False by simp
    qed
  qed
  then show ?thesis ..
qed

lemma filter_dropWhile:
  "(\<And>x. Q x \<Longrightarrow> \<not> P x) \<Longrightarrow> filter P (dropWhile Q xs) = filter P xs"
  by (induction xs) auto

lemma digits_py_strip: "filter is_digit (py_strip s) = filter is_digit s"
proof -
  have sp: "\<And>x. is_space x \<Longrightarrow> \<not> is_digit x" using digit_not_space by blast
  have "filter is_digit (py_strip s) =
          rev (filter is_digit (dropWhile is_space (rev (dropWhile is_space s))))"
    by (simp only: py_strip_def rev_filter)
  also have "\<dots> = rev (filter is_digit (rev (dropWhile is_space s)))"
    by (simp only: filter_dropWhile [of is_space is_digit, OF sp])
  also have "\<dots> = filter is_digit (dropWhile is_space s)"
    by (simp only: rev_filter [symmetric] rev_rev_ident)
  also have "\<dots> = filter is_digit s"
    by (simp only: filter_dropWhile [of is_space is_digit, OF sp])
  finally show ?thesis .
qed

lemma int_literal_limit:
  "too_many_digits lim s \<Longrightarrow> int_literal lim s = Inl ValueError"
  by (auto simp: int_literal_def split: list.splits option.splits)

lemma py_int_limit:
  assumes "length (filter is_digit s) > 640" and "lim > 0"
    and "length (filter is_digit s) > lim"
  shows "py_int lim s = Inl ValueError"
proof (cases "py_strip s")
  case Nil
  then show ?thesis by (simp add: py_int_def)
next
  case (Cons c cs)
  from assms have many: "too_many_digits lim (py_strip s)"
    by (simp add: too_many_digits_def Let_def digits_py_strip)
  show ?thesis
  proof (cases "c = CHR ''-'' \<or> c = CHR ''+''")
    case True
    then have "\<not> is_digit c" by (auto simp: is_digit_def)
    with many Cons have "too_many_digits lim cs"
      by (simp add: too_many_digits_def Let_def)
    from int_literal_limit [OF this] True Cons show ?thesis
      by (auto simp: py_int_def)
  next
    case False
    with int_literal_limit [OF many] Cons show ?thesis by (simp add: py_int_def)
  qed
qed

section \<open>get\_page: what one request gives\<close>

text \<open>
  Claim C9. A response without the \<^verbatim>\<open>x-ratelimit-remaining\<close> header makes \<^verbatim>\<open>get_page\<close>
  raise a \<^verbatim>\<open>KeyError\<close> for that header, whatever the status code is (200 included): the
  lookup of line 159 comes before the status is read. One request has been issued.
\<close>

theorem get_page_missing_remaining_header:
  assumes "map_of (headers response) ''x-ratelimit-remaining'' = None"
  shows "get_page url params auth (response # script) w =
           (Inl (KeyError ''x-ratelimit-remaining''), script,
            w\<lparr>request_log := request_log w @ [(url, params, auth)]\<rparr>)"
  using assms by (simp add: get_page_no_header log_request_def)

text \<open>A response with status 200 and no rate-limit header.\<close>

theorem get_page_missing_remaining_header_witness:
  "map_of (headers \<lparr>status_code = 200, headers = [(''link'', ''x'')], body = Some (JArr [])\<rparr>)
       ''x-ratelimit-remaining'' = None \<and>
   get_page ''u'' [(''state'', ''all'')] None
       [\<lparr>status_code = 200, headers = [(''link'', ''x'')], body = Some (JArr [])\<rparr>]
       \<lparr>request_log = [], stdout = [], slept = [], clock = 0, files = [],
          int_max_str_digits = 4300, csv_quotes_cr_lf = True\<rparr> =
     (Inl (KeyError ''x-ratelimit-remaining''), [],
      \<lparr>request_log = [(''u'', [(''state'', ''all'')], None)], stdout = [], slept = [], clock = 0,
         files = [],
          int_max_str_digits = 4300, csv_quotes_cr_lf = True\<rparr>)"
  using get_page_missing_remaining_header
          [of "\<lparr>status_code = 200, headers = [(''link'', ''x'')], body = Some (JArr [])\<rparr>"
              "''u''" "[(''state'', ''all'')]" None "[]"
              "\<lparr>request_log = [], stdout = [], slept = [], clock = 0, files = [],
          int_max_str_digits = 4300, csv_quotes_cr_lf = True\<rparr>"]
  by simp

text \<open>
  Claim C5. When the \<^verbatim>\<open>x-ratelimit-remaining\<close> header is there and is not \<^verbatim>\<open>"0"\<close>,
  \<^verbatim>\<open>get_page\<close> returns the response if its status is 200 and otherwise raises
  \<^verbatim>\<open>Exception(status_code)\<close>; either way exactly one request has been issued, the rest
  of the script is untouched and nothing else has happened.
\<close>

theorem get_page_status:
  assumes "map_of (headers response) ''x-ratelimit-remaining'' = Some remaining"
    and "remaining \<noteq> ''0''"
  shows "get_page url params auth (response # script) w =
           (if status_code response = 200 then Inr response
            else Inl (Exception (status_code response)),
            script, w\<lparr>request_log := request_log w @ [(url, params, auth)]\<rparr>)"
  using assms by (simp add: get_page_served log_request_def)

text \<open>A 404 with requests left.\<close>

theorem get_page_status_witness:
  "map_of (headers \<lparr>status_code = 404, headers = [(''x-ratelimit-remaining'', ''59'')], body = None\<rparr>)
       ''x-ratelimit-remaining'' = Some ''59'' \<and> ''59'' \<noteq> ''0'' \<and>
   get_page ''u'' [] None
       [\<lparr>status_code = 404, headers = [(''x-ratelimit-remaining'', ''59'')], body = None\<rparr>]
       \<lparr>request_log = [], stdout = [], slept = [], clock = 0, files = [],
          int_max_str_digits = 4300, csv_quotes_cr_lf = True\<rparr> =
     (Inl (Exception 404), [],
      \<lparr>request_log = [(''u'', [], None)], stdout = [], slept = [], clock = 0, files = [],
          int_max_str_digits = 4300, csv_quotes_cr_lf = True\<rparr>)"
  using get_page_status
          [of "\<lparr>status_code = 404, headers = [(''x-ratelimit-remaining'', ''59'')], body = None\<rparr>"
              "''59''" "''u''" "[]" None "[]"
              "\<lparr>request_log = [], stdout = [], slept = [], clock = 0, files = [],
          int_max_str_digits = 4300, csv_quotes_cr_lf = True\<rparr>"]
  by simp

text \<open>
  Claim C8, as amended. When the \<^verbatim>\<open>x-ratelimit-remaining\<close> header reads \<^verbatim>\<open>"0"\<close>,
  \<^verbatim>\<open>get_page\<close> writes its first notice and raises: a \<^verbatim>\<open>KeyError\<close> when the
  \<^verbatim>\<open>x-ratelimit-reset\<close> header is missing, a \<^verbatim>\<open>ValueError\<close> when \<^verbatim>\<open>int()\<close> refuses it, and
  otherwise the \<^verbatim>\<open>NameError\<close> of line 162 for \<^verbatim>\<open>datetime\<close>. In each case nothing has
  slept, the request has been issued once and never again, and the three names
  \<^verbatim>\<open>datetime\<close>, \<^verbatim>\<open>sleep\<close> and \<^verbatim>\<open>gh_shared\<close> are unbound in the module.

  What \<^verbatim>\<open>int()\<close> accepts and refuses is stated without the model's own predicates. It
  accepts the decimal numeral of a timestamp \<open>T\<close> (digits only, of value \<open>T\<close>, with a leading
  zero for 0 alone), with or without a sign and with tabs, line feeds, vertical tabs, form
  feeds, carriage returns, spaces, next-line characters and no-break spaces around it,
  provided the numeral has at most 640 digits or is within the interpreter's limit. It
  refuses the empty string, a string that begins with anything but a digit, a sign or one of
  these white-space characters (so also one that begins with a separator 28 to 31), a string
  that ends with anything but a digit or such a white-space character, a string without a
  digit, and a string with more than 640 digits and more digits than the limit.
\<close>

theorem get_page_rate_limit_raises:
  assumes "map_of (headers response) ''x-ratelimit-remaining'' = Some ''0''"
  shows "get_page url params auth (response # script) w =
           (Inl (case map_of (headers response) ''x-ratelimit-reset'' of
                   None \<Rightarrow> KeyError ''x-ratelimit-reset''
                 | Some v \<Rightarrow>
                     (case py_int (int_max_str_digits w) v of
                        Inl e \<Rightarrow> ValueError
                      | Inr reset \<Rightarrow> NameError ''datetime'')),
            script,
            w\<lparr>request_log := request_log w @ [(url, params, auth)],
              stdout := stdout w @ [Text ''Rate Limit Hit, waiting for reset...\<newline>'']\<rparr>)
         \<and> load_global ''datetime'' = Inl (NameError ''datetime'')
         \<and> load_global ''sleep'' = Inl (NameError ''sleep'')
         \<and> load_global ''gh_shared'' = Inl (NameError ''gh_shared'')
         \<and> ((length (str_nat T) \<le> 640 \<or> int_max_str_digits w = 0 \<or>
              length (str_nat T) \<le> int_max_str_digits w) \<and>
             set pre \<union> set post \<subseteq>
               set [CHR 0x09, CHR 0x0A, CHR 0x0B, CHR 0x0C, CHR 0x0D, CHR 0x20, CHR 0x85, CHR 0xA0] \<longrightarrow>
               py_int (int_max_str_digits w) (pre @ str_nat T @ post) = Inr (int T) \<and>
               py_int (int_max_str_digits w) (pre @ CHR ''+'' # str_nat T @ post) = Inr (int T) \<and>
               py_int (int_max_str_digits w) (pre @ CHR ''-'' # str_nat T @ post) = Inr (- int T))
         \<and> ((\<forall>c \<in> set (str_nat T). c \<in> set ''0123456789'')
             \<and> foldl (\<lambda>a c. 10 * a + (of_char c - 48)) 0 (str_nat T) = T
             \<and> (hd (str_nat T) = CHR ''0'') = (T = 0))
         \<and> (s = [] \<or>
             hd s \<notin> set ''0123456789+-'' \<union>
               set [CHR 0x09, CHR 0x0A, CHR 0x0B, CHR 0x0C, CHR 0x0D, CHR 0x20, CHR 0x85, CHR 0xA0] \<or>
             last s \<notin> set ''0123456789'' \<union>
               set [CHR 0x09, CHR 0x0A, CHR 0x0B, CHR 0x0C, CHR 0x0D, CHR 0x20, CHR 0x85, CHR 0xA0] \<or>
             (\<forall>c \<in> set s. c \<notin> set ''0123456789'') \<or>
             640 < length (filter (\<lambda>c. c \<in> set ''0123456789'') s) \<and>
               0 < int_max_str_digits w \<and>
               int_max_str_digits w < length (filter (\<lambda>c. c \<in> set ''0123456789'') s) \<longrightarrow>
             py_int (int_max_str_digits w) s = Inl ValueError)"
proof -
  let ?lim = "int_max_str_digits w"
  let ?ws = "set [CHR 0x09, CHR 0x0A, CHR 0x0B, CHR 0x0C, CHR 0x0D, CHR 0x20, CHR 0x85, CHR 0xA0]"
  have dig: "(\<lambda>c. c \<in> set ''0123456789'') = is_digit"
    by (rule ext) (simp only: is_digit_iff)
  have sp: "\<And>c. (c \<in> ?ws) = is_space c"
    by (simp only: is_space_iff)
  have sign: "\<And>c. (c \<in> set ''0123456789+-'') = (is_digit c \<or> c = CHR ''+'' \<or> c = CHR ''-'')"
    unfolding is_digit_iff by auto
  have run: "get_page url params auth (response # script) w =
           (Inl (case map_of (headers response) ''x-ratelimit-reset'' of
                   None \<Rightarrow> KeyError ''x-ratelimit-reset''
                 | Some v \<Rightarrow>
                     (case py_int (int_max_str_digits w) v of
                        Inl e \<Rightarrow> ValueError
                      | Inr reset \<Rightarrow> NameError ''datetime'')),
            script,
            w\<lparr>request_log := request_log w @ [(url, params, auth)],
              stdout := stdout w @ [Text ''Rate Limit Hit, waiting for reset...\<newline>'']\<rparr>)"
    using assms by (simp add: get_page_rate_limited log_request_def write_stdout_def)
  have accept: "(length (str_nat T) \<le> 640 \<or> ?lim = 0 \<or> length (str_nat T) \<le> ?lim) \<and>
             set pre \<union> set post \<subseteq> ?ws \<longrightarrow>
               py_int ?lim (pre @ str_nat T @ post) = Inr (int T) \<and>
               py_int ?lim (pre @ CHR ''+'' # str_nat T @ post) = Inr (int T) \<and>
               py_int ?lim (pre @ CHR ''-'' # str_nat T @ post) = Inr (- int T)"
  proof (intro impI, elim conjE)
    assume few: "length (str_nat T) \<le> 640 \<or> ?lim = 0 \<or> length (str_nat T) \<le> ?lim"
      and "set pre \<union> set post \<subseteq> ?ws"
    then have "\<forall>c \<in> set pre. c \<in> ?ws" "\<forall>c \<in> set post. c \<in> ?ws" by blast+
    then have pre: "\<forall>c \<in> set pre. is_space c" and post: "\<forall>c \<in> set post. is_space c"
      by (simp_all only: sp)
    from py_int_padded [OF few pre post]
    show "py_int ?lim (pre @ str_nat T @ post) = Inr (int T) \<and>
          py_int ?lim (pre @ CHR ''+'' # str_nat T @ post) = Inr (int T) \<and>
          py_int ?lim (pre @ CHR ''-'' # str_nat T @ post) = Inr (- int T)"
      by (intro conjI)
  qed
  have numeral: "(\<forall>c \<in> set (str_nat T). c \<in> set ''0123456789'')
             \<and> foldl (\<lambda>a c. 10 * a + (of_char c - 48)) 0 (str_nat T) = T
             \<and> (hd (str_nat T) = CHR ''0'') = (T = 0)"
  proof (intro conjI)
    show "\<forall>c \<in> set (str_nat T). c \<in> set ''0123456789''"
      using str_nat_digits [of _ T] by (simp only: is_digit_iff) blast
    show "foldl (\<lambda>a c. 10 * a + (of_char c - 48)) 0 (str_nat T) = T"
      using str_nat_value [of T] by (simp only: digit_val_def)
    show "(hd (str_nat T) = CHR ''0'') = (T = 0)"
      by (rule str_nat_leading)
  qed
  have refuse: "s = [] \<or> hd s \<notin> set ''0123456789+-'' \<union> ?ws \<or>
             last s \<notin> set ''0123456789'' \<union> ?ws \<or>
             (\<forall>c \<in> set s. c \<notin> set ''0123456789'') \<or>
             640 < length (filter (\<lambda>c. c \<in> set ''0123456789'') s) \<and> 0 < ?lim \<and>
               ?lim < length (filter (\<lambda>c. c \<in> set ''0123456789'') s) \<longrightarrow>
             py_int ?lim s = Inl ValueError"
  proof
    assume "s = [] \<or> hd s \<notin> set ''0123456789+-'' \<union> ?ws \<or>
             last s \<notin> set ''0123456789'' \<union> ?ws \<or>
             (\<forall>c \<in> set s. c \<notin> set ''0123456789'') \<or>
             640 < length (filter (\<lambda>c. c \<in> set ''0123456789'') s) \<and> 0 < ?lim \<and>
               ?lim < length (filter (\<lambda>c. c \<in> set ''0123456789'') s)"
    then show "py_int ?lim s = Inl ValueError"
    proof (elim disjE conjE)
      assume "s = []"
      then show ?thesis by (intro py_int_refuses disjI1)
    next
      assume "hd s \<notin> set ''0123456789+-'' \<union> ?ws"
      then have "\<not> (is_digit (hd s) \<or> hd s = CHR ''+'' \<or> hd s = CHR ''-'' \<or> is_space (hd s))"
        unfolding Un_iff sign sp by blast
      then show ?thesis by (intro py_int_refuses disjI2 disjI1)
    next
      assume "last s \<notin> set ''0123456789'' \<union> ?ws"
      then have "\<not> (is_digit (last s) \<or> is_space (last s))"
        unfolding Un_iff sp is_digit_iff [symmetric] .
      then show ?thesis by (intro py_int_refuses disjI2)
    next
      assume "\<forall>c \<in> set s. c \<notin> set ''0123456789''"
      then have "\<forall>c \<in> set s. \<not> is_digit c" by (simp only: is_digit_iff)
      then show ?thesis by (rule py_int_needs_digit)
    next
      assume "640 < length (filter (\<lambda>c. c \<in> set ''0123456789'') s)" "0 < ?lim"
             "?lim < length (filter (\<lambda>c. c \<in> set ''0123456789'') s)"
      then show ?thesis unfolding dig by (intro py_int_limit)
    qed
  qed
  show ?thesis
    by (rule conjI [OF run conjI [OF load_global_datetime conjI [OF load_global_sleep
          conjI [OF load_global_gh_shared conjI [OF accept conjI [OF numeral refuse]]]]]])
qed

text \<open>
  Remaining 0 and the clock at 995: with the reset header \<^verbatim>\<open>1000\<close> the \<^verbatim>\<open>NameError\<close>, with
  the reset header \<^verbatim>\<open>soon\<close> and with the file separator (character 28) before \<^verbatim>\<open>5\<close> the
  \<^verbatim>\<open>ValueError\<close>; \<^verbatim>\<open>int()\<close> on a padded negative numeral and on 4301 digits under the limit
  of 4300.
\<close>

theorem get_page_rate_limit_raises_witness:
  "get_page ''u'' [] None
       [\<lparr>status_code = 403,
          headers = [(''x-ratelimit-remaining'', ''0''), (''x-ratelimit-reset'', ''1000'')],
          body = None\<rparr>]
       \<lparr>request_log = [], stdout = [], slept = [], clock = 995, files = [],
          int_max_str_digits = 4300, csv_quotes_cr_lf = True\<rparr> =
     (Inl (NameError ''datetime''), [],
      \<lparr>request_log = [(''u'', [], None)],
         stdout = [Text ''Rate Limit Hit, waiting for reset...\<newline>''],
         slept = [], clock = 995, files = [],
         int_max_str_digits = 4300, csv_quotes_cr_lf = True\<rparr>)
   \<and> get_page ''u'' [] None
       [\<lparr>status_code = 403,
          headers = [(''x-ratelimit-remaining'', ''0''), (''x-ratelimit-reset'', ''soon'')],
          body = None\<rparr>]
       \<lparr>request_log = [], stdout = [], slept = [], clock = 995, files = [],
          int_max_str_digits = 4300, csv_quotes_cr_lf = True\<rparr> =
     (Inl ValueError, [],
      \<lparr>request_log = [(''u'', [], None)],
         stdout = [Text ''Rate Limit Hit, waiting for reset...\<newline>''],
         slept = [], clock = 995, files = [],
         int_max_str_digits = 4300, csv_quotes_cr_lf = True\<rparr>)
   \<and> fst (get_page ''u'' [] None
       [\<lparr>status_code = 403,
          headers = [(''x-ratelimit-remaining'', ''0''), (''x-ratelimit-reset'', [CHR 0x1C, CHR ''5''])],
          body = None\<rparr>]
       \<lparr>request_log = [], stdout = [], slept = [], clock = 995, files = [],
          int_max_str_digits = 4300, csv_quotes_cr_lf = True\<rparr>) = Inl ValueError
   \<and> py_int 4300 ''1000'' = Inr 1000
   \<and> py_int 4300 (''  -1000'' @ [CHR 0x0D, CHR 0x0A]) = Inr (- 1000)
   \<and> py_int 4300 ''soon'' = Inl ValueError
   \<and> py_int 4300 [CHR 0x1C, CHR ''5''] = Inl ValueError
   \<and> py_int 4300 (replicate 4301 CHR ''1'') = Inl ValueError"
proof -
  let ?w = "\<lparr>request_log = [], stdout = [], slept = [], clock = 995, files = [],
              int_max_str_digits = 4300, csv_quotes_cr_lf = True\<rparr>"
  let ?r = "\<lambda>v. \<lparr>status_code = 403,
          headers = [(''x-ratelimit-remaining'', ''0''), (''x-ratelimit-reset'', v)],
          body = None\<rparr>"
  have numeral: "str_nat 1000 = ''1000''" by (simp add: str_nat.simps)
  have limited: "map_of (headers (?r v)) ''x-ratelimit-remaining'' = Some ''0''" for v
    by simp
  from get_page_rate_limit_raises [OF limited, where url = "''u''" and params = "[]"
      and auth = None and script = "[]" and w = ?w and T = 1000 and s = "''soon''"
      and pre = "[]" and post = "[]" and v1 = "''1000''"]
  have first: "get_page ''u'' [] None [?r ''1000''] ?w =
     (Inl (NameError ''datetime''), [],
      \<lparr>request_log = [(''u'', [], None)],
         stdout = [Text ''Rate Limit Hit, waiting for reset...\<newline>''],
         slept = [], clock = 995, files = [],
         int_max_str_digits = 4300, csv_quotes_cr_lf = True\<rparr>)"
    and ok: "py_int 4300 ''1000'' = Inr 1000"
    and refused: "py_int 4300 ''soon'' = Inl ValueError"
    by (simp_all add: numeral)
  from get_page_rate_limit_raises [OF limited, where url = "''u''" and params = "[]"
      and auth = None and script = "[]" and w = ?w and T = 1000 and s = "[CHR 0x1C, CHR ''5'']"
      and pre = "''  ''" and post = "[CHR 0x0D, CHR 0x0A]" and v1 = "''soon''"] refused
  have second: "get_page ''u'' [] None [?r ''soon''] ?w =
     (Inl ValueError, [],
      \<lparr>request_log = [(''u'', [], None)],
         stdout = [Text ''Rate Limit Hit, waiting for reset...\<newline>''],
         slept = [], clock = 995, files = [],
         int_max_str_digits = 4300, csv_quotes_cr_lf = True\<rparr>)"
    and padded: "py_int 4300 (''  -1000'' @ [CHR 0x0D, CHR 0x0A]) = Inr (- 1000)"
    and separator: "py_int 4300 [CHR 0x1C, CHR ''5''] = Inl ValueError"
    by (simp_all add: numeral)
  from get_page_rate_limit_raises [OF limited, where url = "''u''" and params = "[]"
      and auth = None and script = "[]" and w = ?w and T = 1000
      and s = "replicate 4301 CHR ''1''"
      and pre = "[]" and post = "[]" and v1 = "[CHR 0x1C, CHR ''5'']"] separator
  have third: "fst (get_page ''u'' [] None [?r [CHR 0x1C, CHR ''5'']] ?w) = Inl ValueError"
    and long: "py_int 4300 (replicate 4301 CHR ''1'') = Inl ValueError"
    by simp_all
  from first second third ok padded refused separator long show ?thesis
    by (simp only: simp_thms)
qed

text \<open>
  Claim C8 as stated fails: with remaining \<^verbatim>\<open>"0"\<close> and no \<^verbatim>\<open>x-ratelimit-reset\<close> header,
  line 161 raises a \<^verbatim>\<open>KeyError\<close> before line 162 reads \<^verbatim>\<open>datetime\<close>.
\<close>

theorem get_page_rate_limit_KeyError:
  "fst (get_page ''u'' [] None
          [\<lparr>status_code = 403, headers = [(''x-ratelimit-remaining'', ''0'')], body = None\<rparr>]
          \<lparr>request_log = [], stdout = [], slept = [], clock = 995, files = [],
          int_max_str_digits = 4300, csv_quotes_cr_lf = True\<rparr>) =
     Inl (KeyError ''x-ratelimit-reset'')"
  by (simp add: get_page.simps(2) headers_getitem_def)

text \<open>
  Claim C2 on the code: remaining \<^verbatim>\<open>"0"\<close>, reset time 1000, clock at 995, and a good
  response ready for a second request. \<^verbatim>\<open>get_page\<close> raises the \<^verbatim>\<open>NameError\<close> for
  \<^verbatim>\<open>datetime\<close>; nothing has slept and the second response is still in the script.
\<close>

theorem get_page_rate_limit_no_retry:
  "get_page ''https://api.github.com/repos/o/r/pulls'' [(''state'', ''all''), (''per_page'', ''100'')]
       (Some (''user'', ''pwd''))
       [\<lparr>status_code = 403,
          headers = [(''x-ratelimit-remaining'', ''0''), (''x-ratelimit-reset'', ''1000'')],
          body = None\<rparr>,
        \<lparr>status_code = 200, headers = [(''x-ratelimit-remaining'', ''5000'')],
          body = Some (JArr [])\<rparr>]
       \<lparr>request_log = [], stdout = [], slept = [], clock = 995, files = [],
          int_max_str_digits = 4300, csv_quotes_cr_lf = True\<rparr> =
     (Inl (NameError ''datetime''),
      [\<lparr>status_code = 200, headers = [(''x-ratelimit-remaining'', ''5000'')],
         body = Some (JArr [])\<rparr>],
      \<lparr>request_log =
         [(''https://api.github.com/repos/o/r/pulls'', [(''state'', ''all''), (''per_page'', ''100'')],
           Some (''user'', ''pwd''))],
         stdout = [Text ''Rate Limit Hit, waiting for reset...\<newline>''],
         slept = [], clock = 995, files = [],
          int_max_str_digits = 4300, csv_quotes_cr_lf = True\<rparr>)"
  by (simp add: get_page.simps(2) headers_getitem_def log_request_def write_stdout_def
        load_global_def module_globals_def
        py_int_def py_strip_def is_space_def int_literal_def too_many_digits_def is_digit_def
        digit_val_def)

text \<open>
  Claim C6 on the code: asked to wait 5 seconds, \<^verbatim>\<open>wait_it_out\<close> raises the
  \<^verbatim>\<open>NameError\<close> for \<^verbatim>\<open>gh_shared\<close> at line 135, before the first \<^verbatim>\<open>sleep\<close> and before
  anything is printed.
\<close>

theorem wait_it_out_never_sleeps:
  "wait_it_out ''Rate Limit Hit'' 5
       \<lparr>request_log = [], stdout = [], slept = [], clock = 995, files = [],
          int_max_str_digits = 4300, csv_quotes_cr_lf = True\<rparr> =
     (Inl (NameError ''gh_shared''),
      \<lparr>request_log = [], stdout = [], slept = [], clock = 995, files = [],
          int_max_str_digits = 4300, csv_quotes_cr_lf = True\<rparr>)"
  by (simp add: wait_it_out_def wait_loop.simps [of _ 20] load_global_def module_globals_def)

section \<open>is\_defect: the labels of the linked issue\<close>

lemma traverse_names:
  "list_all2 (\<lambda>l n. py_getitem l key = Inr (JStr n)) ls L \<Longrightarrow>
   traverse (\<lambda>l. py_getitem l key) ls = Inr (map JStr L)"
  by (induction ls L rule: list_all2_induct) auto

lemma hashable_strs: "list_all hashable (map JStr L)"
  by (induction L) auto

lemma defects_filter:
  "(Set.filter (\<lambda>d. JStr d \<in> set (map JStr L)) DEFECTS \<noteq> {}) = (set L \<inter> DEFECTS \<noteq> {})"
  by auto

text \<open>
  Claim C3. Take a pull request with an issue URL, and an issue that \<^verbatim>\<open>get_page\<close> returns
  (status 200, requests remaining) whose body is an object; its \<^verbatim>\<open>labels\<close> field is a list
  \<open>ls\<close> of labels with the names \<open>L\<close>, or is absent (then \<open>ls\<close> is empty). Then
  \<^verbatim>\<open>is_defect\<close> returns true if and only if \<open>L\<close> meets \<^verbatim>\<open>{bug, defect, kind/bug}\<close>, after one
  request to the issue URL; with no labels it returns false.
\<close>

theorem is_defect_iff_defect_label:
  assumes "py_getitem pull_req ''issue_url'' = Inr (JStr url)"
    and "map_of (headers issue) ''x-ratelimit-remaining'' = Some remaining"
    and "remaining \<noteq> ''0''"
    and "status_code issue = 200"
    and "body issue = Some (JObj members)"
    and "map_of members ''labels'' = Some (JArr ls) \<or> map_of members ''labels'' = None \<and> ls = []"
    and "list_all2 (\<lambda>l n. py_getitem l ''name'' = Inr (JStr n)) ls L"
  shows "is_defect pull_req params auth (issue # script) w =
           (Inr (set L \<inter> DEFECTS \<noteq> {}), script,
            w\<lparr>request_log := request_log w @ [(url, params, auth)]\<rparr>)
         \<and> (ls = [] \<longrightarrow> fst (is_defect pull_req params auth (issue # script) w) = Inr False)"
proof -
  have page: "get_page url params auth (issue # script) w =
                (Inr issue, script, w\<lparr>request_log := request_log w @ [(url, params, auth)]\<rparr>)"
    using assms(2-4) by (simp add: get_page_served log_request_def)
  have labels: "dict_get (JObj members) ''labels'' (JArr []) = Inr (JArr ls)"
    using assms(6) by auto
  have main: "is_defect pull_req params auth (issue # script) w =
           (Inr (set L \<inter> DEFECTS \<noteq> {}), script,
            w\<lparr>request_log := request_log w @ [(url, params, auth)]\<rparr>)"
    unfolding is_defect_def
    using assms(1,5,7) page labels
    by (auto simp add: response_json_def traverse_names hashable_strs Let_def
             simp del: dict_get.simps)
  moreover have "L = []" if "ls = []"
    using assms(7) that by simp
  ultimately show ?thesis by simp
qed

text \<open>An issue labelled \<^verbatim>\<open>enhancement\<close> and \<^verbatim>\<open>kind/bug\<close>, and an issue without a \<^verbatim>\<open>labels\<close> field.\<close>

theorem is_defect_iff_defect_label_witness:
  "is_defect (JObj [(''number'', JInt 7), (''issue_url'', JStr ''https://api.github.com/repos/o/r/issues/7'')])
       [] None
       [\<lparr>status_code = 200, headers = [(''x-ratelimit-remaining'', ''59'')],
          body = Some (JObj [(''labels'',
                   JArr [JObj [(''name'', JStr ''enhancement'')],
                         JObj [(''color'', JStr ''fc2929''), (''name'', JStr ''kind/bug'')]])])\<rparr>]
       \<lparr>request_log = [], stdout = [], slept = [], clock = 0, files = [],
          int_max_str_digits = 4300, csv_quotes_cr_lf = True\<rparr> =
     (Inr True, [],
      \<lparr>request_log = [(''https://api.github.com/repos/o/r/issues/7'', [], None)],
         stdout = [], slept = [], clock = 0, files = [],
          int_max_str_digits = 4300, csv_quotes_cr_lf = True\<rparr>)
   \<and> fst (is_defect (JObj [(''issue_url'', JStr ''i'')]) [] None
            [\<lparr>status_code = 200, headers = [(''x-ratelimit-remaining'', ''59'')],
               body = Some (JObj [(''title'', JStr ''t'')])\<rparr>]
            \<lparr>request_log = [], stdout = [], slept = [], clock = 0, files = [],
          int_max_str_digits = 4300, csv_quotes_cr_lf = True\<rparr>) = Inr False"
  using is_defect_iff_defect_label
          [of "JObj [(''number'', JInt 7), (''issue_url'', JStr ''https://api.github.com/repos/o/r/issues/7'')]"
              "''https://api.github.com/repos/o/r/issues/7''"
              "\<lparr>status_code = 200, headers = [(''x-ratelimit-remaining'', ''59'')],
                 body = Some (JObj [(''labels'',
                   JArr [JObj [(''name'', JStr ''enhancement'')],
                         JObj [(''color'', JStr ''fc2929''), (''name'', JStr ''kind/bug'')]])])\<rparr>"
              "''59''"
              "[(''labels'',
                   JArr [JObj [(''name'', JStr ''enhancement'')],
                         JObj [(''color'', JStr ''fc2929''), (''name'', JStr ''kind/bug'')]])]"
              "[JObj [(''name'', JStr ''enhancement'')],
                         JObj [(''color'', JStr ''fc2929''), (''name'', JStr ''kind/bug'')]]"
              "[''enhancement'', ''kind/bug'']" "[]" None "[]"
              "\<lparr>request_log = [], stdout = [], slept = [], clock = 0, files = [],
          int_max_str_digits = 4300, csv_quotes_cr_lf = True\<rparr>"]
        is_defect_iff_defect_label
          [of "JObj [(''issue_url'', JStr ''i'')]" "''i''"
              "\<lparr>status_code = 200, headers = [(''x-ratelimit-remaining'', ''59'')],
                 body = Some (JObj [(''title'', JStr ''t'')])\<rparr>"
              "''59''" "[(''title'', JStr ''t'')]" "[]" "[]" "[]" None "[]"
              "\<lparr>request_log = [], stdout = [], slept = [], clock = 0, files = [],
          int_max_str_digits = 4300, csv_quotes_cr_lf = True\<rparr>"]
  by (simp add: DEFECTS_def)

section \<open>download\_pulls: following the link header\<close>








text \<open>
  The link header of a page that has a next and a last page, as the service sends it:
  whatever the two URLs are, as long as they hold no comma and no semicolon, the module
  reads the two relations from it.
\<close>

lemma split_on_nonempty: "split_on c s \<noteq> []"
  by (induction s) (auto split: list.splits)

lemma split_on_append:
  "c \<notin> set u \<Longrightarrow>
   split_on c (u @ rest) = (u @ hd (split_on c rest)) # tl (split_on c rest)"
proof (induction u)
  case Nil
  then show ?case using split_on_nonempty [of c rest] by simp
next
  case (Cons x u)
  then show ?case by auto
qed

lemma link_pages_next_and_last:
  assumes "CHR '','' \<notin> set u" "CHR '';'' \<notin> set u" "CHR '','' \<notin> set v" "CHR '';'' \<notin> set v"
  shows "link_pages (''<'' @ u @ ''>; rel='' @ [CHR 0x22] @ ''next'' @ [CHR 0x22] @
                     '', <'' @ v @ ''>; rel='' @ [CHR 0x22] @ ''last'' @ [CHR 0x22]) =
           Inr (map_of [(''last'', v), (''next'', u)])"
  using assms
  by (simp add: link_pages_def link_entry_def split_on_append butlast_append)



section \<open>The CSV artifact\<close>

lemma csv_quote_explicit:
  "csv_quote quote_cr_lf lt f =
     (if \<exists>c \<in> set f. c = CHR '','' \<or> c = CHR 0x22 \<or> c \<in> set lt \<or>
           quote_cr_lf \<and> (c = CHR 0x0D \<or> c = CHR 0x0A)
      then [CHR 0x22] @ concat (map (\<lambda>c. if c = CHR 0x22 then [c, c] else [c]) f) @ [CHR 0x22]
      else f)"
  by (simp add: csv_quote_def csv_special_def list_ex_iff)

lemma csv_row_four:
  "csv_row quote_cr_lf lt [a, b, c, d] =
     csv_quote quote_cr_lf lt a @ '','' @ csv_quote quote_cr_lf lt b @ '','' @
     csv_quote quote_cr_lf lt c @ '','' @ csv_quote quote_cr_lf lt d @ lt"
  by (simp add: csv_row_def)

lemma writerow_typed:
  "writerow quote_cr_lf lt [JInt n, JStr s, JStr owner, JStr repo] f =
     Inr (f @ csv_row quote_cr_lf lt [str_int n, s, owner, repo])"
  by (simp add: writerow_def csv_field_def)

lemma write_commits_typed:
  "write_commits quote_cr_lf lt owner repo (JInt n) (map JStr commits) f =
     Inr (f @ concat (map (\<lambda>s. csv_row quote_cr_lf lt [str_int n, s, owner, repo]) commits))"
  by (induction commits arbitrary: f) (simp_all add: writerow_typed)

lemma write_pulls_typed:
  "write_pulls quote_cr_lf lt owner repo (map (\<lambda>(n, commits). (JInt n, map JStr commits)) M) f =
     Inr (f @ concat (map (\<lambda>(n, commits).
                 concat (map (\<lambda>s. csv_row quote_cr_lf lt [str_int n, s, owner, repo]) commits)) M))"
  by (induction M arbitrary: f) (auto simp: write_commits_typed)

lemma write_csv_typed:
  "write_csv quote_cr_lf lt owner repo (map (\<lambda>(n, commits). (JInt n, map JStr commits)) M) =
     Inr (csv_row quote_cr_lf lt [''Pull'', ''Commit-SHA'', ''Owner'', ''Repo''] @
          concat (map (\<lambda>(n, commits).
                 concat (map (\<lambda>s. csv_row quote_cr_lf lt [str_int n, s, owner, repo]) commits)) M))"
  by (simp add: write_csv_def writerow_def csv_field_def write_pulls_typed)

lemma csv_quote_plain:
  "set f \<inter> {CHR '','', CHR 0x22, CHR 0x0D, CHR 0x0A} = {} \<Longrightarrow>
   lt = [CHR 0x0A] \<or> lt = [CHR 0x0D, CHR 0x0A] \<Longrightarrow> csv_quote quote_cr_lf lt f = f"
  by (erule disjE) (auto simp: csv_quote_explicit)

lemma str_int_nat: "str_int (int k) = str_nat k"
  by (simp add: str_int_def)

lemma str_int_negative: "str_int (- int (Suc k)) = CHR ''-'' # str_int (int (Suc k))"
  by (simp add: str_int_def add.commute)

lemma str_int_decimal:
  "(\<forall>c \<in> set (str_int (int k)). c \<in> set ''0123456789'')
   \<and> foldl (\<lambda>a c. 10 * a + (of_char c - 48)) 0 (str_int (int k)) = k
   \<and> (hd (str_int (int k)) = CHR ''0'') = (k = 0)
   \<and> str_int 0 = ''0''
   \<and> str_int (- int (Suc k)) = CHR ''-'' # str_int (int (Suc k))"
proof -
  have "\<forall>c \<in> set (str_nat k). c \<in> set ''0123456789''"
    using str_nat_digits [of _ k] by (simp only: is_digit_iff) blast
  moreover have "foldl (\<lambda>a c. 10 * a + (of_char c - 48)) 0 (str_nat k) = k"
    using str_nat_value [of k] by (simp only: digit_val_def)
  moreover have "str_int 0 = ''0''"
    using str_int_nat [of 0] by (simp add: str_nat_zero)
  ultimately show ?thesis
    using str_nat_leading [of k] str_int_negative [of k] by (simp only: str_int_nat simp_thms)
qed

theorem write_csv_rows:
  "(let quoted = (\<lambda>f. if \<exists>c \<in> set f. c = CHR '','' \<or> c = CHR 0x22 \<or> c \<in> set lt \<or>
                           quote_cr_lf \<and> (c = CHR 0x0D \<or> c = CHR 0x0A)
                        then [CHR 0x22] @
                             concat (map (\<lambda>c. if c = CHR 0x22 then [c, c] else [c]) f) @
                             [CHR 0x22]
                        else f);
        row = (\<lambda>a b c d. quoted a @ '','' @ quoted b @ '','' @ quoted c @ '','' @ quoted d @ lt)
    in write_csv quote_cr_lf lt owner repo (map (\<lambda>(n, commits). (JInt n, map JStr commits)) M) =
         Inr (row ''Pull'' ''Commit-SHA'' ''Owner'' ''Repo'' @
              concat (map (\<lambda>(n, commits).
                     concat (map (\<lambda>s. row (str_int n) s owner repo) commits)) M)))
   \<and> ((\<forall>c \<in> set (str_int (int k)). c \<in> set ''0123456789'')
      \<and> foldl (\<lambda>a c. 10 * a + (of_char c - 48)) 0 (str_int (int k)) = k
      \<and> (hd (str_int (int k)) = CHR ''0'') = (k = 0)
      \<and> str_int 0 = ''0''
      \<and> str_int (- int (Suc k)) = CHR ''-'' # str_int (int (Suc k)))
   \<and> ((linesep = [CHR 0x0A] \<or> linesep = [CHR 0x0D, CHR 0x0A]) \<and>
       set sha_a \<inter> {CHR '','', CHR 0x22, CHR 0x0D, CHR 0x0A} = {} \<and>
       set sha_b \<inter> {CHR '','', CHR 0x22, CHR 0x0D, CHR 0x0A} = {} \<and>
       set o' \<inter> {CHR '','', CHR 0x22, CHR 0x0D, CHR 0x0A} = {} \<and>
       set r \<inter> {CHR '','', CHR 0x22, CHR 0x0D, CHR 0x0A} = {} \<longrightarrow>
       write_csv quote_cr_lf linesep o' r [(JInt 1, [JStr sha_a, JStr sha_b])] =
         Inr (''Pull,Commit-SHA,Owner,Repo'' @ linesep @
              ''1,'' @ sha_a @ '','' @ o' @ '','' @ r @ linesep @
              ''1,'' @ sha_b @ '','' @ o' @ '','' @ r @ linesep))"
proof (intro conjI impI)
  show "let quoted = (\<lambda>f. if \<exists>c \<in> set f. c = CHR '','' \<or> c = CHR 0x22 \<or> c \<in> set lt \<or>
                           quote_cr_lf \<and> (c = CHR 0x0D \<or> c = CHR 0x0A)
                        then [CHR 0x22] @
                             concat (map (\<lambda>c. if c = CHR 0x22 then [c, c] else [c]) f) @
                             [CHR 0x22]
                        else f);
        row = (\<lambda>a b c d. quoted a @ '','' @ quoted b @ '','' @ quoted c @ '','' @ quoted d @ lt)
    in write_csv quote_cr_lf lt owner repo (map (\<lambda>(n, commits). (JInt n, map JStr commits)) M) =
         Inr (row ''Pull'' ''Commit-SHA'' ''Owner'' ''Repo'' @
              concat (map (\<lambda>(n, commits).
                     concat (map (\<lambda>s. row (str_int n) s owner repo) commits)) M))"
    unfolding Let_def csv_quote_explicit [symmetric]
    by (simp only: write_csv_typed csv_row_four)
next
  assume h: "(linesep = [CHR 0x0A] \<or> linesep = [CHR 0x0D, CHR 0x0A]) \<and>
       set sha_a \<inter> {CHR '','', CHR 0x22, CHR 0x0D, CHR 0x0A} = {} \<and>
       set sha_b \<inter> {CHR '','', CHR 0x22, CHR 0x0D, CHR 0x0A} = {} \<and>
       set o' \<inter> {CHR '','', CHR 0x22, CHR 0x0D, CHR 0x0A} = {} \<and>
       set r \<inter> {CHR '','', CHR 0x22, CHR 0x0D, CHR 0x0A} = {}"
  then have ls: "linesep = [CHR 0x0A] \<or> linesep = [CHR 0x0D, CHR 0x0A]" by simp
  have one: "str_int 1 = ''1''" by (simp add: str_int_def str_nat.simps)
  have plain: "csv_quote quote_cr_lf linesep f = f"
    if "set f \<inter> {CHR '','', CHR 0x22, CHR 0x0D, CHR 0x0A} = {}" for f
    using that ls by (rule csv_quote_plain)
  have fields: "csv_quote quote_cr_lf linesep sha_a = sha_a"
    "csv_quote quote_cr_lf linesep sha_b = sha_b"
    "csv_quote quote_cr_lf linesep o' = o'" "csv_quote quote_cr_lf linesep r = r"
    using h by (simp_all only: plain)
  have fixed: "csv_quote quote_cr_lf linesep ''1'' = ''1''"
    "csv_quote quote_cr_lf linesep ''Pull'' = ''Pull''"
    "csv_quote quote_cr_lf linesep ''Commit-SHA'' = ''Commit-SHA''"
    "csv_quote quote_cr_lf linesep ''Owner'' = ''Owner''"
    "csv_quote quote_cr_lf linesep ''Repo'' = ''Repo''"
    by (rule plain, simp)+
  show "write_csv quote_cr_lf linesep o' r [(JInt 1, [JStr sha_a, JStr sha_b])] =
         Inr (''Pull,Commit-SHA,Owner,Repo'' @ linesep @
              ''1,'' @ sha_a @ '','' @ o' @ '','' @ r @ linesep @
              ''1,'' @ sha_b @ '','' @ o' @ '','' @ r @ linesep)"
    using write_csv_typed [of quote_cr_lf linesep o' r "[(1, [sha_a, sha_b])]"]
    by (simp add: csv_row_four one fields fixed)
qed (use str_int_decimal [of k] in \<open>blast+\<close>)


text \<open>
  The mapping \<^verbatim>\<open>{1: [sha_a, sha_b]}\<close> of the specification with a line feed as separator, and
  a mapping whose owner has a comma, whose repository has a double quote and whose second commit
  has a carriage return: these three fields are quoted, the double quote is doubled, the others
  are written as they are.
\<close>

theorem write_csv_rows_witness:
  "write_csv True ''\<newline>'' ''o'' ''r'' [(JInt 1, [JStr ''sha_a'', JStr ''sha_b''])] =
     Inr (''Pull,Commit-SHA,Owner,Repo\<newline>1,sha_a,o,r\<newline>1,sha_b,o,r\<newline>'')
   \<and> write_csv True ''\<newline>'' ''o,1'' (''r'' @ [CHR 0x22] @ ''x'')
        [(JInt 42, [JStr ''abc'', JStr (''d'' @ [CHR 0x0D] @ ''e'')]), (JInt 7, [])] =
     Inr (''Pull,Commit-SHA,Owner,Repo\<newline>'' @
          ''42,abc,'' @ [CHR 0x22] @ ''o,1'' @ [CHR 0x22] @ '','' @
             [CHR 0x22] @ ''r'' @ [CHR 0x22, CHR 0x22] @ ''x'' @ [CHR 0x22] @ ''\<newline>'' @
          ''42,'' @ [CHR 0x22] @ ''d'' @ [CHR 0x0D] @ ''e'' @ [CHR 0x22] @ '','' @
             [CHR 0x22] @ ''o,1'' @ [CHR 0x22] @ '','' @
             [CHR 0x22] @ ''r'' @ [CHR 0x22, CHR 0x22] @ ''x'' @ [CHR 0x22] @ ''\<newline>'')
   \<and> str_int 42 = ''42''"
  using write_csv_rows [where quote_cr_lf = True and lt = "''\<newline>''" and owner = "''o,1''"
      and repo = "''r'' @ [CHR 0x22] @ ''x''"
      and M = "[(42, [''abc'', ''d'' @ [CHR 0x0D] @ ''e'']), (7, [])]" and k = 42
      and linesep = "''\<newline>''" and sha_a = "''sha_a''" and sha_b = "''sha_b''"
      and o' = "''o''" and r = "''r''"]
  by (simp add: Let_def str_int_def str_nat.simps)

section \<open>What a call leaves of the world\<close>

lemma get_page_cases:
  obtains (empty) "script = []"
        | (no_header) r rest where "script = r # rest"
            "map_of (headers r) ''x-ratelimit-remaining'' = None"
        | (limited) r rest where "script = r # rest"
            "map_of (headers r) ''x-ratelimit-remaining'' = Some ''0''"
        | (served) r rest v where "script = r # rest"
            "map_of (headers r) ''x-ratelimit-remaining'' = Some v" "v \<noteq> ''0''"
proof (cases script)
  case Nil
  then show ?thesis by (rule empty)
next
  case (Cons r rest)
  show ?thesis
  proof (cases "map_of (headers r) ''x-ratelimit-remaining''")
    case None
    with Cons show ?thesis by (rule no_header)
  next
    case (Some v)
    show ?thesis
    proof (cases "v = ''0''")
      case True
      with Cons Some show ?thesis by (intro limited) simp_all
    next
      case False
      with Cons Some show ?thesis by (intro served) simp_all
    qed
  qed
qed

lemma get_page_Inr:
  assumes "get_page url params auth script w = (Inr r, script1, w1)"
  shows "script = r # script1 \<and> w1 = log_request (url, params, auth) w"
proof (cases script rule: get_page_cases)
  case empty
  with assms show ?thesis by simp
next
  case (no_header r' rest)
  with assms show ?thesis by (simp add: get_page_no_header)
next
  case (limited r' rest)
  with assms show ?thesis by (simp add: get_page_rate_limited)
next
  case (served r' rest v)
  with assms show ?thesis by (simp add: get_page_served split: if_splits)
qed

text \<open>
  The worlds of two calls may differ in everything, also in the settings of the interpreter:
  the calls consume the same responses, and a value that one of them returns the other one
  returns too (so that one raises if and only if the other does).
\<close>

lemma get_page_indep:
  "(\<forall>r. fst (get_page url params auth script w) = Inr r \<longrightarrow>
        fst (get_page url params auth script w') = Inr r) \<and>
   fst (snd (get_page url params auth script w)) = fst (snd (get_page url params auth script w'))"
proof (cases script rule: get_page_cases)
  case empty
  then show ?thesis by simp
next
  case (no_header r' rest)
  then show ?thesis by (simp add: get_page_no_header)
next
  case (limited r' rest)
  then show ?thesis by (simp add: get_page_rate_limited)
next
  case (served r' rest v)
  then show ?thesis by (simp add: get_page_served)
qed

lemma get_page_indep_Inl:
  assumes "fst (get_page url params auth script w) = Inl e"
  shows "\<exists>e'. fst (get_page url params auth script w') = Inl e'"
proof (cases "fst (get_page url params auth script w')")
  case (Inl e')
  then show ?thesis by simp
next
  case (Inr r)
  with get_page_indep [of url params auth script w' w]
  have "fst (get_page url params auth script w) = Inr r" by blast
  with assms show ?thesis by simp
qed

lemma is_defect_Inr:
  "is_defect p params auth script w = (Inr b, script1, w1) \<Longrightarrow> stdout w1 = stdout w"
  by (auto simp: is_defect_def log_request_def Let_def
           split: sum.splits prod.splits if_splits dest!: get_page_Inr)

lemma get_commits_by_pull_Inr:
  "get_commits_by_pull p params auth script w = (Inr cs, script1, w1) \<Longrightarrow> stdout w1 = stdout w"
  by (auto simp: get_commits_by_pull_def get_commits_by_url_def log_request_def
           split: sum.splits prod.splits dest!: get_page_Inr)

lemma is_defect_indep:
  "(\<forall>b. fst (is_defect p params auth script w) = Inr b \<longrightarrow>
        fst (is_defect p params auth script w') = Inr b) \<and>
   fst (snd (is_defect p params auth script w)) = fst (snd (is_defect p params auth script w'))"
proof (cases "py_getitem p ''issue_url''")
  case (Inl e)
  then show ?thesis by (simp add: is_defect_def)
next
  case j: (Inr j)
  show ?thesis
  proof (cases "url_of j")
    case (Inl e)
    with j show ?thesis by (simp add: is_defect_def)
  next
    case u: (Inr url)
    obtain res s1 w1 where g: "get_page url params auth script w = (res, s1, w1)"
      by (cases "get_page url params auth script w")
    obtain res' s1' w1' where g': "get_page url params auth script w' = (res', s1', w1')"
      by (cases "get_page url params auth script w'")
    from get_page_indep [of url params auth script w w'] g g'
    have s: "s1' = s1" by simp
    show ?thesis
    proof (cases res)
      case (Inl e)
      with j u g g' s show ?thesis by (simp add: is_defect_def Let_def split: sum.splits)
    next
      case (Inr r)
      with get_page_indep [of url params auth script w w'] g g' have "res' = Inr r" by simp
      with Inr j u g g' s show ?thesis
        by (simp add: is_defect_def Let_def split: sum.splits)
    qed
  qed
qed

lemma is_defect_indep_Inl:
  assumes "fst (is_defect p params auth script w) = Inl e"
  shows "\<exists>e'. fst (is_defect p params auth script w') = Inl e'"
proof (cases "fst (is_defect p params auth script w')")
  case (Inl e')
  then show ?thesis by simp
next
  case (Inr r)
  with is_defect_indep [of p params auth script w' w]
  have "fst (is_defect p params auth script w) = Inr r" by blast
  with assms show ?thesis by simp
qed

lemma get_commits_by_pull_indep:
  "(\<forall>cs. fst (get_commits_by_pull p params auth script w) = Inr cs \<longrightarrow>
         fst (get_commits_by_pull p params auth script w') = Inr cs) \<and>
   fst (snd (get_commits_by_pull p params auth script w)) =
     fst (snd (get_commits_by_pull p params auth script w'))"
proof (cases "py_getitem p ''commits_url''")
  case (Inl e)
  then show ?thesis by (simp add: get_commits_by_pull_def)
next
  case j: (Inr j)
  show ?thesis
  proof (cases "url_of j")
    case (Inl e)
    with j show ?thesis by (simp add: get_commits_by_pull_def)
  next
    case u: (Inr url)
    obtain res s1 w1 where g: "get_page url params auth script w = (res, s1, w1)"
      by (cases "get_page url params auth script w")
    obtain res' s1' w1' where g': "get_page url params auth script w' = (res', s1', w1')"
      by (cases "get_page url params auth script w'")
    from get_page_indep [of url params auth script w w'] g g'
    have s: "s1' = s1" by simp
    show ?thesis
    proof (cases res)
      case (Inl e)
      with j u g g' s show ?thesis
        by (simp add: get_commits_by_pull_def get_commits_by_url_def split: sum.splits)
    next
      case (Inr r)
      with get_page_indep [of url params auth script w w'] g g' have "res' = Inr r" by simp
      with Inr j u g g' s show ?thesis
        by (simp add: get_commits_by_pull_def get_commits_by_url_def split: sum.splits)
    qed
  qed
qed

lemma get_commits_by_pull_indep_Inl:
  assumes "fst (get_commits_by_pull p params auth script w) = Inl e"
  shows "\<exists>e'. fst (get_commits_by_pull p params auth script w') = Inl e'"
proof (cases "fst (get_commits_by_pull p params auth script w')")
  case (Inl e')
  then show ?thesis by simp
next
  case (Inr r)
  with get_commits_by_pull_indep [of p params auth script w' w]
  have "fst (get_commits_by_pull p params auth script w) = Inr r" by blast
  with assms show ?thesis by simp
qed

lemma defect_pulls_indep:
  "defect_pulls params auth pulls script w = defect_pulls params auth pulls script w'"
proof (induction pulls arbitrary: script w w')
  case Nil
  show ?case by simp
next
  case (Cons p pulls)
  obtain res s1 w1 where d: "is_defect p params auth script w = (res, s1, w1)"
    by (cases "is_defect p params auth script w")
  obtain res' s1' w1' where d': "is_defect p params auth script w' = (res', s1', w1')"
    by (cases "is_defect p params auth script w'")
  from is_defect_indep [of p params auth script w w'] d d'
  have s: "s1' = s1" by simp
  show ?case
  proof (cases res)
    case (Inl e)
    with is_defect_indep_Inl [of p params auth script w e w'] d d'
    obtain e' where "res' = Inl e'" by auto
    with Inl d d' show ?thesis by simp
  next
    case (Inr b)
    with is_defect_indep [of p params auth script w w'] d d' have same: "res' = Inr b" by simp
    show ?thesis
    proof (cases b)
      case False
      with Inr d d' same s Cons.IH [of s1 w1 w1'] show ?thesis by simp
    next
      case True
      obtain cs s2 w2 where c: "get_commits_by_pull p params auth s1 w1 = (cs, s2, w2)"
        by (cases "get_commits_by_pull p params auth s1 w1")
      obtain cs' s2' w2' where c': "get_commits_by_pull p params auth s1 w1' = (cs', s2', w2')"
        by (cases "get_commits_by_pull p params auth s1 w1'")
      from get_commits_by_pull_indep [of p params auth s1 w1 w1'] c c'
      have s2: "s2' = s2" by simp
      show ?thesis
      proof (cases cs)
        case (Inl e)
        with get_commits_by_pull_indep_Inl [of p params auth s1 w1 e w1'] c c'
        obtain e' where "cs' = Inl e'" by auto
        with Inl True Inr d d' same s c c' show ?thesis by simp
      next
        case r: (Inr r)
        with get_commits_by_pull_indep [of p params auth s1 w1 w1'] c c'
        have "cs' = Inr r" by simp
        with r True Inr d d' same s c c' s2 Cons.IH [of s2 w2 w2'] show ?thesis by simp
      qed
    qed
  qed
qed

section \<open>analyze\_pulls: the flat sequence and the mapping\<close>

lemma classify_loop_Cons:
  "classify_loop V params auth (p # pulls) shas pc progress script w0 =
     (case is_defect p params auth script (if V then fst (progress_marker progress w0) else w0) of
        (Inl e, script1, w1) \<Rightarrow> (Inl e, script1, w1)
      | (Inr False, script1, w1) \<Rightarrow>
          classify_loop V params auth pulls shas pc
            (if V then snd (progress_marker progress w0) else progress) script1 w1
      | (Inr True, script1, w1) \<Rightarrow>
         (case get_commits_by_pull p params auth script1 w1 of
            (Inl e, script2, w2) \<Rightarrow> (Inl e, script2, w2)
          | (Inr commits, script2, w2) \<Rightarrow>
             (case py_getitem p ''number'' of
                Inl e \<Rightarrow> (Inl e, script2, w2)
              | Inr number \<Rightarrow>
                 if \<not> hashable number then (Inl TypeError, script2, w2)
                 else classify_loop V params auth pulls (shas @ commits)
                        (dict_set pc number commits)
                        (if V then snd (progress_marker progress w0) else progress) script2 w2)))"
  by (cases V; cases "progress_marker progress w0")
     (simp_all split: prod.splits sum.splits bool.splits)

lemma classify_step:
  assumes "classify_loop V params auth (p # pulls) shas pc progress script w = (Inr out, s', w')"
  obtains (skip) s1 w1 where
      "is_defect p params auth script (if V then fst (progress_marker progress w) else w) =
         (Inr False, s1, w1)"
      "classify_loop V params auth pulls shas pc
         (if V then snd (progress_marker progress w) else progress) s1 w1 = (Inr out, s', w')"
  | (take) s1 w1 cs s2 w2 num where
      "is_defect p params auth script (if V then fst (progress_marker progress w) else w) =
         (Inr True, s1, w1)"
      "get_commits_by_pull p params auth s1 w1 = (Inr cs, s2, w2)"
      "py_getitem p ''number'' = Inr num" "hashable num"
      "classify_loop V params auth pulls (shas @ cs) (dict_set pc num cs)
         (if V then snd (progress_marker progress w) else progress) s2 w2 = (Inr out, s', w')"
proof -
  obtain res s1 w1 where d:
    "is_defect p params auth script (if V then fst (progress_marker progress w) else w) = (res, s1, w1)"
    by (cases "is_defect p params auth script (if V then fst (progress_marker progress w) else w)")
  note run = assms [unfolded classify_loop_Cons d]
  show thesis
  proof (cases res)
    case (Inl e)
    with run show thesis by simp
  next
    case (Inr b)
    show thesis
    proof (cases b)
      case False
      with run d Inr show thesis by (intro skip [of s1 w1]) simp_all
    next
      case True
      obtain cres s2 w2 where c: "get_commits_by_pull p params auth s1 w1 = (cres, s2, w2)"
        by (cases "get_commits_by_pull p params auth s1 w1")
      show thesis
      proof (cases cres)
        case (Inl e)
        with run Inr True c show thesis by simp
      next
        case cs: (Inr cs)
        show thesis
        proof (cases "py_getitem p ''number''")
          case (Inl e)
          with run Inr True c cs show thesis by simp
        next
          case num: (Inr num)
          show thesis
          proof (cases "hashable num")
            case False
            with run Inr True c cs num show thesis by simp
          next
            case h: True
            from run Inr True c cs num h
            have "classify_loop V params auth pulls (shas @ cs) (dict_set pc num cs)
                    (if V then snd (progress_marker progress w) else progress) s2 w2 =
                  (Inr out, s', w')"
              by simp
            with d Inr True c cs num h show thesis
              by (intro take [of s1 w1 cs s2 w2 num]) simp_all
          qed
        qed
      qed
    qed
  qed
qed

lemma defect_pulls_skip:
  assumes "is_defect p params auth script w0 = (Inr False, s1, w1)"
  shows "defect_pulls params auth (p # pulls) script w = defect_pulls params auth pulls s1 w1"
proof -
  obtain res' s1' w1' where d': "is_defect p params auth script w = (res', s1', w1')"
    by (cases "is_defect p params auth script w")
  from is_defect_indep [of p params auth script w0 w] assms d'
  have "res' = Inr False" "s1' = s1" by auto
  with d' show ?thesis
    by (simp add: defect_pulls_indep [of params auth pulls s1 w1' w1])
qed

lemma defect_pulls_take:
  assumes "is_defect p params auth script w0 = (Inr True, s1, w1)"
    and "get_commits_by_pull p params auth s1 w1 = (Inr cs, s2, w2)"
  shows "defect_pulls params auth (p # pulls) script w = (p, cs) # defect_pulls params auth pulls s2 w2"
proof -
  obtain res' s1' w1' where d': "is_defect p params auth script w = (res', s1', w1')"
    by (cases "is_defect p params auth script w")
  from is_defect_indep [of p params auth script w0 w] assms(1) d'
  have d: "res' = Inr True" "s1' = s1" by auto
  obtain cs' s2' w2' where c': "get_commits_by_pull p params auth s1 w1' = (cs', s2', w2')"
    by (cases "get_commits_by_pull p params auth s1 w1'")
  from get_commits_by_pull_indep [of p params auth s1 w1 w1'] assms(2) c'
  have c: "cs' = Inr cs" "s2' = s2" by simp_all
  from d' d c' c show ?thesis
    by (simp add: defect_pulls_indep [of params auth pulls s2 w2' w2])
qed

lemma dict_set_fresh:
  "\<forall>k \<in> fst ` set d. \<not> py_eq k key \<Longrightarrow> dict_set d key v = d @ [(key, v)]"
  by (induction d) auto

lemma classify_loop_result:
  assumes "classify_loop V params auth pulls shas pc progress script w = (Inr (shas', pc'), s', w')"
    and "map (\<lambda>p. py_getitem p ''number'') pulls = map (\<lambda>n. Inr (JInt n)) ns"
    and "distinct ns"
    and "\<forall>k \<in> fst ` set pc. \<exists>m. k = JInt m \<and> m \<notin> set ns"
  shows "shas' = shas @ concat (map snd (defect_pulls params auth pulls script w)) \<and>
         (\<exists>new. pc' = pc @ new \<and>
            list_all2 (\<lambda>(k, cs) (p, cs'). py_getitem p ''number'' = Inr k \<and> cs = cs')
              new (defect_pulls params auth pulls script w))"
  using assms
proof (induction pulls arbitrary: shas pc progress script w ns)
  case Nil
  then show ?case by simp
next
  case (Cons p pulls)
  from Cons.prems(2) obtain n ns' where ns: "ns = n # ns'"
    and num: "py_getitem p ''number'' = Inr (JInt n)"
    and nums: "map (\<lambda>p. py_getitem p ''number'') pulls = map (\<lambda>n. Inr (JInt n)) ns'"
    by (cases ns) simp_all
  from Cons.prems(3) ns have dist: "distinct ns'" and fresh: "n \<notin> set ns'" by simp_all
  from Cons.prems(4) ns have keys: "\<forall>k \<in> fst ` set pc. \<exists>m. k = JInt m \<and> m \<notin> set ns'"
    and keys_n: "\<forall>k \<in> fst ` set pc. \<not> py_eq k (JInt n)"
    by auto
  from Cons.prems(1) show ?case
  proof (cases rule: classify_step)
    case (skip s1 w1)
    from Cons.IH [OF skip(2) nums dist keys] defect_pulls_skip [OF skip(1)]
    show ?thesis by simp
  next
    case (take s1 w1 cs s2 w2 num')
    from take(3) num have num': "num' = JInt n" by simp
    have set_eq: "dict_set pc num' cs = pc @ [(JInt n, cs)]"
      unfolding num' using keys_n by (rule dict_set_fresh)
    have keys': "\<forall>k \<in> fst ` set (pc @ [(JInt n, cs)]). \<exists>m. k = JInt m \<and> m \<notin> set ns'"
      using keys fresh by auto
    from Cons.IH [OF take(5) [unfolded set_eq] nums dist keys']
    obtain new where
      sh: "shas' = (shas @ cs) @ concat (map snd (defect_pulls params auth pulls s2 w2))"
      and pc: "pc' = (pc @ [(JInt n, cs)]) @ new"
      and rel: "list_all2 (\<lambda>(k, cs) (p, cs'). py_getitem p ''number'' = Inr k \<and> cs = cs')
                  new (defect_pulls params auth pulls s2 w2)"
      by auto
    have dp: "defect_pulls params auth (p # pulls) script w =
                (p, cs) # defect_pulls params auth pulls s2 w2"
      using take(1,2) by (rule defect_pulls_take)
    show ?thesis
      unfolding dp using sh pc rel num
      by (intro conjI exI [of _ "(JInt n, cs) # new"]) simp_all
  qed
qed

text \<open>Unfolding the definitions on a concrete run.\<close>

lemmas run_simps =
  analyze_pulls_def get_pull_requests_def download_pulls_def download_loop.simps
  get_page.simps(2) headers_getitem_def response_json_def next_url_def
  is_defect_def get_commits_by_pull_def get_commits_by_url_def progress_marker_def
  write_stdout_def log_request_def write_file_def write_txt_def write_csv_def writerow_def
  csv_field_def csv_row_def csv_quote_def csv_special_def str_int_def str_nat.simps
  py_int_def int_literal_def too_many_digits_def
  REPO_BASE_def NOTE_LABEL_def NOTE_INDENT_def DEFECTS_def Let_def
  example_pull_def example_page_def example_issue_def example_commits_def idle_def

lemma map_of_write_file: "map_of (files (write_file path content w)) path = Some content"
proof -
  have "path \<notin> fst ` set (filter (\<lambda>(p, c). p \<noteq> path) (files w))" by auto
  then have "map_of (filter (\<lambda>(p, c). p \<noteq> path) (files w)) path = None"
    by (simp add: map_of_eq_None_iff)
  then show ?thesis by (simp add: write_file_def map_of_append map_add_def)
qed

text \<open>
  Claim C4. Let \<^verbatim>\<open>analyze_pulls\<close> return \<open>shas\<close>, on pulls that all have a number and whose
  numbers are distinct integers. Then \<open>shas\<close> is the concatenation, in iteration order, of
  the commit lists of exactly the pulls classified as defect-associated, and the
  mapping written to the CSV file has exactly those pulls, in that order, each under its
  number with its commit list: a commit is in the flat sequence if and only if it is
  in the mapping under the pull that produced it.
\<close>

theorem analyze_pulls_result_consistent:
  assumes "get_pull_requests owner repo params auth script w = (Inr pulls, script1, w1)"
    and "map (\<lambda>p. py_getitem p ''number'') pulls = map (\<lambda>n. Inr (JInt n)) ns"
    and "distinct ns"
    and "analyze_pulls VERBOSE linesep owner repo params auth script w = (Inr shas, script', w')"
  shows "shas = concat (map snd (defect_pulls params auth pulls script1 w1))
       \<and> (\<exists>pull_commits csv.
            list_all2 (\<lambda>(number, commits) (p, commits'). py_getitem p ''number'' = Inr number \<and> commits = commits')
              pull_commits (defect_pulls params auth pulls script1 w1)
          \<and> write_csv (csv_quotes_cr_lf w') linesep owner repo pull_commits = Inr csv
          \<and> map_of (files w') (''./'' @ repo @ ''_pulls.csv'') = Some csv)"
proof -
  define w2 where "w2 = write_stdout
                     (Text (NOTE_LABEL @ ''Checking for defects associated with pull requests.'' @
                            ''\<newline>'' @ NOTE_INDENT @ ''This might take a bit of time...'' @
                            ''\<newline>'')) w1"
  obtain res s2 w3 where loop:
    "classify_loop VERBOSE params auth pulls [] [] 0 script1 w2 = (res, s2, w3)"
    by (cases "classify_loop VERBOSE params auth pulls [] [] 0 script1 w2")
  note run = assms(4) [unfolded analyze_pulls_def assms(1) prod.case sum.case Let_def
                          w2_def [symmetric] loop]
  obtain pull_commits csv w5 where res: "res = Inr (shas, pull_commits)"
    and csv5: "write_csv (csv_quotes_cr_lf w5) linesep owner repo pull_commits = Inr csv"
    and w': "w' = write_file (''./'' @ repo @ ''_pulls.csv'') csv w5"
  proof (cases res)
    case (Inl e)
    with run show thesis by simp
  next
    case (Inr out)
    obtain shas0 pc where out: "out = (shas0, pc)" by (cases out)
    show thesis
    proof (cases "write_txt shas0")
      case (Inl e)
      with run Inr out show thesis by simp
    next
      case tx: (Inr content)
      define w5 where "w5 = write_file (''./'' @ repo @ ''_pulls.txt'') content
                              (if VERBOSE then write_stdout (Text ''\<newline>'') w3 else w3)"
      show thesis
      proof (cases "write_csv (csv_quotes_cr_lf w5) linesep owner repo pc")
        case (Inl e)
        with run Inr out tx show thesis by (simp add: w5_def)
      next
        case c: (Inr csv)
        from run Inr out tx c have "shas0 = shas"
          and "w' = write_file (''./'' @ repo @ ''_pulls.csv'') csv w5"
          by (simp_all add: w5_def)
        with Inr out c show thesis by (intro that [of pc w5 csv]) simp_all
      qed
    qed
  qed
  from classify_loop_result [OF loop [unfolded res] assms(2,3)]
  have "shas = concat (map snd (defect_pulls params auth pulls script1 w2))"
    and "list_all2 (\<lambda>(number, commits) (p, commits'). py_getitem p ''number'' = Inr number \<and> commits = commits')
              pull_commits (defect_pulls params auth pulls script1 w2)"
    by simp_all
  then have "shas = concat (map snd (defect_pulls params auth pulls script1 w1))"
    and "list_all2 (\<lambda>(number, commits) (p, commits'). py_getitem p ''number'' = Inr number \<and> commits = commits')
              pull_commits (defect_pulls params auth pulls script1 w1)"
    by (simp_all only: defect_pulls_indep [of params auth pulls script1 w2 w1])
  moreover from w' have "map_of (files w') (''./'' @ repo @ ''_pulls.csv'') = Some csv"
    by (simp only: map_of_write_file)
  moreover from w' csv5
  have "write_csv (csv_quotes_cr_lf w') linesep owner repo pull_commits = Inr csv"
    by simp
  ultimately show ?thesis by blast
qed

text \<open>
  The end-to-end scenario of the specification: pull 1 is labelled \<^verbatim>\<open>bug\<close> and has the
  commits \<^verbatim>\<open>c1\<close> and \<^verbatim>\<open>c2\<close>, pull 2 is labelled \<^verbatim>\<open>enhancement\<close>.
\<close>

theorem analyze_pulls_result_consistent_witness:
  "fst (analyze_pulls True ''\<newline>'' ''o'' ''r'' [(''state'', ''all''), (''per_page'', ''100'')] None
          [example_page (JArr [example_pull 1, example_pull 2]),
           example_issue [''bug''], example_commits [''c1'', ''c2''],
           example_issue [''enhancement'']] idle) = Inr [JStr ''c1'', JStr ''c2'']
   \<and> defect_pulls [(''state'', ''all''), (''per_page'', ''100'')] None
         [example_pull 1, example_pull 2]
         [example_issue [''bug''], example_commits [''c1'', ''c2''], example_issue [''enhancement'']]
         idle = [(example_pull 1, [JStr ''c1'', JStr ''c2''])]
   \<and> map_of (files (snd (snd (analyze_pulls True ''\<newline>'' ''o'' ''r''
                 [(''state'', ''all''), (''per_page'', ''100'')] None
                 [example_page (JArr [example_pull 1, example_pull 2]),
                  example_issue [''bug''], example_commits [''c1'', ''c2''],
                  example_issue [''enhancement'']] idle)))) ''./r_pulls.csv'' =
       Some ''Pull,Commit-SHA,Owner,Repo\<newline>1,c1,o,r\<newline>1,c2,o,r\<newline>''"
proof -
  let ?params = "[(''state'', ''all''), (''per_page'', ''100'')]"
  let ?script = "[example_page (JArr [example_pull 1, example_pull 2]),
                  example_issue [''bug''], example_commits [''c1'', ''c2''],
                  example_issue [''enhancement'']]"
  let ?run = "analyze_pulls True ''\<newline>'' ''o'' ''r'' ?params None ?script idle"
  let ?fetch = "get_pull_requests ''o'' ''r'' ?params None ?script idle"
  have fetch: "?fetch =
      (Inr [example_pull 1, example_pull 2],
       [example_issue [''bug''], example_commits [''c1'', ''c2''], example_issue [''enhancement'']],
       snd (snd ?fetch))"
    by (simp add: run_simps)
  have nums: "map (\<lambda>p. py_getitem p ''number'') [example_pull 1, example_pull 2] =
                map (\<lambda>n. Inr (JInt n)) [1, 2]"
    by (simp add: example_pull_def)
  have run: "?run = (Inr [JStr ''c1'', JStr ''c2''], fst (snd ?run), snd (snd ?run))"
    by (simp add: run_simps)
  have dp: "defect_pulls ?params None [example_pull 1, example_pull 2]
         [example_issue [''bug''], example_commits [''c1'', ''c2''], example_issue [''enhancement'']]
         idle = [(example_pull 1, [JStr ''c1'', JStr ''c2''])]"
    by (simp add: run_simps)
  have csv_file: "map_of (files (snd (snd ?run))) ''./r_pulls.csv'' =
       Some ''Pull,Commit-SHA,Owner,Repo\<newline>1,c1,o,r\<newline>1,c2,o,r\<newline>''"
    by (simp add: run_simps)
  have shas: "fst ?run = Inr [JStr ''c1'', JStr ''c2'']"
    by (simp add: run_simps)
  have dist: "distinct [1, 2 :: int]" by simp
  have "[JStr ''c1'', JStr ''c2''] =
          concat (map snd (defect_pulls ?params None [example_pull 1, example_pull 2]
            [example_issue [''bug''], example_commits [''c1'', ''c2''], example_issue [''enhancement'']]
            (snd (snd ?fetch))))"
    using analyze_pulls_result_consistent [OF fetch nums dist run] by (rule conjunct1)
  with shas dp csv_file show ?thesis
    by (simp only: simp_thms)
qed

section \<open>analyze\_pulls: the progress markers\<close>

lemma progress_marker_marks:
  assumes "k < 71"
  shows "stdout (fst (progress_marker (int k) w)) = stdout w @ marks_at k"
    and "snd (progress_marker (int k) w) = int (Suc k mod 71)"
proof -
  have d: "(0 < int k div 10) = (10 \<le> k)" by linarith
  have m: "k mod 71 = k" using assms by simp
  have e: "(int k + 1 = 71) = (k = 70)" by linarith
  show "stdout (fst (progress_marker (int k) w)) = stdout w @ marks_at k"
    by (simp add: progress_marker_def marks_at_def Let_def write_stdout_def d m e)
  have s: "Suc k mod 71 = (if k = 70 then 0 else Suc k)" using assms by (simp add: mod_Suc)
  show "snd (progress_marker (int k) w) = int (Suc k mod 71)"
    by (simp add: progress_marker_def Let_def e s)
qed

lemma marks_at_mod: "marks_at (i mod 71 + j) = marks_at (i + j)"
  by (simp add: marks_at_def mod_add_left_eq)

lemma classify_loop_stdout:
  assumes "classify_loop True params auth pulls shas pc (int k) script w = (Inr out, script', w')"
    and "k < 71"
  shows "stdout w' = stdout w @ concat (map (\<lambda>i. marks_at (k + i)) [0..<length pulls])"
  using assms
proof (induction pulls arbitrary: shas pc k script w)
  case Nil
  then show ?case by simp
next
  case (Cons p pulls)
  have k': "Suc k mod 71 < 71" by simp
  have shift: "map (\<lambda>i. marks_at (k + i)) [0..<length (p # pulls)] =
                 marks_at k # map (\<lambda>i. marks_at (Suc k mod 71 + i)) [0..<length pulls]"
  proof -
    have "[0..<Suc (length pulls)] = 0 # [Suc 0..<Suc (length pulls)]"
      by (rule upt_conv_Cons) simp
    then have "[0..<length (p # pulls)] = 0 # map Suc [0..<length pulls]"
      by (simp only: map_Suc_upt list.size) simp
    then show ?thesis by (simp add: marks_at_mod comp_def)
  qed
  from Cons.prems(1) show ?case
  proof (cases rule: classify_step)
    case (skip s1 w1)
    from skip(1) have "stdout w1 = stdout w @ marks_at k"
      using is_defect_Inr progress_marker_marks(1) [OF Cons.prems(2)] by fastforce
    moreover from skip(2) have "stdout w' =
        stdout w1 @ concat (map (\<lambda>i. marks_at (Suc k mod 71 + i)) [0..<length pulls])"
      using Cons.IH [OF _ k'] progress_marker_marks(2) [OF Cons.prems(2)] by simp
    ultimately show ?thesis by (simp only: shift) simp
  next
    case (take s1 w1 cs s2 w2 num)
    from take(1) have "stdout w1 = stdout w @ marks_at k"
      using is_defect_Inr progress_marker_marks(1) [OF Cons.prems(2)] by fastforce
    moreover from take(2) have "stdout w2 = stdout w1"
      by (rule get_commits_by_pull_Inr)
    moreover from take(5) have "stdout w' =
        stdout w2 @ concat (map (\<lambda>i. marks_at (Suc k mod 71 + i)) [0..<length pulls])"
      using Cons.IH [OF _ k'] progress_marker_marks(2) [OF Cons.prems(2)] by simp
    ultimately show ?thesis by (simp only: shift) simp
  qed
qed

text \<open>
  Claim C10, as amended. In verbose mode a completed run of the classification loop
  has written, for the pull at position \<open>i\<close> (from 0), an asterisk when \<open>i mod 71\<close> is at
  least 10 and then a line break when \<open>i mod 71\<close> is 70, and nothing else: of every 71
  pulls the first 10 get no marker, the next 61 get one each, and the line ends after
  the 71st.
\<close>

theorem classify_loop_progress_markers:
  assumes "classify_loop True params auth pulls [] [] 0 script w = (Inr out, script', w')"
  shows "stdout w' = stdout w @ concat (map marks_at [0..<length pulls])"
  using classify_loop_stdout [of params auth pulls "[]" "[]" 0 script w out script' w'] assms
  by simp

text \<open>Twelve pulls without labels: two markers.\<close>

theorem classify_loop_progress_markers_witness:
  "fst (classify_loop True [] None (replicate 12 (example_pull 1)) [] [] 0
          (replicate 12 (example_issue [])) idle) = Inr ([], [])
   \<and> stdout (snd (snd (classify_loop True [] None (replicate 12 (example_pull 1)) [] [] 0
                          (replicate 12 (example_issue [])) idle))) =
       [Text ''*'', Text ''*'']"
proof -
  have run: "classify_loop True [] None (replicate 12 (example_pull 1)) [] [] 0
               (replicate 12 (example_issue [])) idle =
             (Inr ([], []),
              fst (snd (classify_loop True [] None (replicate 12 (example_pull 1)) [] [] 0
                          (replicate 12 (example_issue [])) idle)),
              snd (snd (classify_loop True [] None (replicate 12 (example_pull 1)) [] [] 0
                          (replicate 12 (example_issue [])) idle)))"
    by (simp add: eval_nat_numeral run_simps)
  have "concat (map marks_at [0..<12]) = [Text ''*'', Text ''*'']"
    by code_simp
  then have marks: "concat (map marks_at [0..<length (replicate 12 (example_pull 1))]) =
                 [Text ''*'', Text ''*'']"
    by (simp only: length_replicate)
  have out: "fst (classify_loop True [] None (replicate 12 (example_pull 1)) [] [] 0
               (replicate 12 (example_issue [])) idle) = Inr ([], [])"
    by (subst run) simp
  have "stdout idle = []" by (simp add: idle_def)
  with classify_loop_progress_markers [OF run] marks
  have "stdout (snd (snd (classify_loop True [] None (replicate 12 (example_pull 1)) [] [] 0
                          (replicate 12 (example_issue [])) idle))) =
       [Text ''*'', Text ''*'']"
    by (simp only: append_Nil)
  with out show ?thesis by (simp only: simp_thms)
qed

text \<open>
  Claim C10 as stated fails: over 20 pulls the loop writes 10 asterisks, not one for
  every 10 pulls.
\<close>

theorem progress_markers_twenty_pulls:
  "length (filter (\<lambda>t. t = Text ''*'')
     (stdout (snd (snd (classify_loop True [] None (replicate 20 (example_pull 1)) [] [] 0
                          (replicate 20 (example_issue [])) idle))))) = 10
   \<and> (10::nat) \<noteq> 20 div 10"
proof (intro conjI)
  show "length (filter (\<lambda>t. t = Text ''*'')
     (stdout (snd (snd (classify_loop True [] None (replicate 20 (example_pull 1)) [] [] 0
                          (replicate 20 (example_issue [])) idle))))) = 10"
    by (simp add: eval_nat_numeral run_simps)
  show "(10::nat) \<noteq> 20 div 10" by simp
qed

end
